theory Spec2Isabelle
  imports Main "HOL-Library.Sublist" "HOL-Library.Word"
begin

section \<open>Strings: the built-in string methods the scripts call\<close>

text \<open>
  Both scripts are straight-line Python. The string methods they call
  (\<^verbatim>\<open>str.replace\<close>, \<^verbatim>\<open>str.title\<close>, \<^verbatim>\<open>len\<close>, \<^verbatim>\<open>os.path.join\<close>) are
  modelled on \<^typ>\<open>string\<close>; a \<^typ>\<open>char\<close> is a byte, so the model covers ASCII
  names, which is what the scripts use.
\<close>

definition is_upper :: "char \<Rightarrow> bool" where
  "is_upper c = (65 \<le> (of_char c :: nat) \<and> (of_char c :: nat) \<le> 90)"

definition is_lower :: "char \<Rightarrow> bool" where
  "is_lower c = (97 \<le> (of_char c :: nat) \<and> (of_char c :: nat) \<le> 122)"

definition is_cased :: "char \<Rightarrow> bool" where
  "is_cased c = (is_upper c \<or> is_lower c)"

definition upper_char :: "char \<Rightarrow> char" where
  "upper_char c = (if is_lower c then char_of ((of_char c :: nat) - 32) else c)"

definition lower_char :: "char \<Rightarrow> char" where
  "lower_char c = (if is_upper c then char_of ((of_char c :: nat) + 32) else c)"

text \<open>
  \<^verbatim>\<open>str.title()\<close>: one pass over the characters with the flag
  \<^verbatim>\<open>previous_is_cased\<close>; a cased character is lower-cased after a cased one
  and upper-cased otherwise, every other character is copied.
\<close>

fun title_from :: "bool \<Rightarrow> string \<Rightarrow> string" where
  "title_from previous_is_cased [] = []"
| "title_from previous_is_cased (c # cs) =
     (if previous_is_cased then lower_char c else upper_char c) # title_from (is_cased c) cs"

definition title :: "string \<Rightarrow> string" where
  "title s = title_from False s"

text \<open>
  \<^verbatim>\<open>str.replace(old, new)\<close>: every occurrence of \<open>old\<close>, found from the left
  and not overlapping, is replaced. An empty \<open>old\<close> matches before every
  character and at the end.
\<close>

fun replace :: "string \<Rightarrow> string \<Rightarrow> string \<Rightarrow> string" where
  "replace [] new s = new @ concat (map (\<lambda>c. c # new) s)"
| "replace (a # as) new [] = []"
| "replace (a # as) new (c # cs) =
     (if prefix (a # as) (c # cs) then new @ replace (a # as) new (drop (length as) cs)
      else c # replace (a # as) new cs)"

text \<open>\<^verbatim>\<open>str.find(old)\<close>: the index of the first occurrence, \<open>None\<close> for Python's -1.\<close>

fun find_str :: "string \<Rightarrow> string \<Rightarrow> nat option" where
  "find_str old [] = (if old = [] then Some 0 else None)"
| "find_str old (c # cs) =
     (if prefix old (c # cs) then Some 0 else map_option Suc (find_str old cs))"

text \<open>\<^verbatim>\<open>str.split(sep)\<close> and \<^verbatim>\<open>sep.join(words)\<close>, for a separator of one character.\<close>

fun split_on :: "char \<Rightarrow> string \<Rightarrow> string list" where
  "split_on sep [] = [[]]"
| "split_on sep (c # cs) =
     (if c = sep then [] # split_on sep cs
      else (case split_on sep cs of [] \<Rightarrow> [[c]] | w # ws \<Rightarrow> (c # w) # ws))"

fun join_with :: "char \<Rightarrow> string list \<Rightarrow> string" where
  "join_with sep [] = []"
| "join_with sep [w] = w"
| "join_with sep (w # v # ws) = w @ sep # join_with sep (v # ws)"

text \<open>
  \<^verbatim>\<open>os.path.join(a, b)\<close> on POSIX: an absolute \<open>b\<close> discards \<open>a\<close>; otherwise
  the two are joined with one separator unless \<open>a\<close> is empty or ends with one.
\<close>

definition path_join :: "string \<Rightarrow> string \<Rightarrow> string" where
  "path_join a b =
     (if prefix ''/'' b then b
      else if a = [] \<or> suffix ''/'' a then a @ b
      else a @ ''/'' @ b)"

text \<open>
  \<^verbatim>\<open>os.path.dirname(p)\<close>, and the chain of directories \<^verbatim>\<open>os.makedirs(p)\<close>
  walks, outermost first: the prefixes of the path's components.
\<close>

definition dirname :: "string \<Rightarrow> string" where
  "dirname p = join_with CHR ''/'' (butlast (split_on CHR ''/'' p))"

definition dirs_of :: "string \<Rightarrow> string list" where
  "dirs_of p = map (join_with CHR ''/'') (tl (prefixes (split_on CHR ''/'' p)))"

section \<open>The tables of the scripts\<close>

text \<open>The list \<^verbatim>\<open>icons\<close>, the same in both scripts.\<close>

definition icons :: "string list" where
  "icons = [''hobo_cape_icon'', ''cool_shades_icon'', ''cardboard_armor_icon'', ''extra_life_icon'']"

text \<open>
  A colour is the tuple of channel values the script writes, as a list: three
  channels or four. The dict \<^verbatim>\<open>colors\<close> of \<^verbatim>\<open>create_icons.py\<close> is an
  association list read through \<^const>\<open>map_of\<close>.
\<close>

type_synonym colour = "nat list"

definition colors :: "(string \<times> colour) list" where
  "colors =
     [(''hobo_cape_icon'', [120, 120, 120]),
      (''cool_shades_icon'', [50, 50, 50]),
      (''cardboard_armor_icon'', [160, 120, 80]),
      (''extra_life_icon'', [200, 50, 50])]"

text \<open>\<^verbatim>\<open>colors.get(icon_name, default)\<close>.\<close>

definition colors_get :: "string \<Rightarrow> colour \<Rightarrow> colour" where
  "colors_get icon_name dflt =
     (case map_of colors icon_name of Some c \<Rightarrow> c | None \<Rightarrow> dflt)"

text \<open>Line 30 of \<^verbatim>\<open>create_icons.py\<close>: the fill colour of an icon.\<close>

definition color :: "string \<Rightarrow> colour" where
  "color icon_name = colors_get icon_name [100, 100, 100]"

text \<open>Lines 34 to 41 of \<^verbatim>\<open>create_icons.py\<close>: the label and where it is drawn.\<close>

definition display_name :: "string \<Rightarrow> string" where
  "display_name icon_name = title (replace ''_'' '' '' (replace ''_icon'' '''' icon_name))"

definition text_width :: "string \<Rightarrow> int" where
  "text_width icon_name = int (length (display_name icon_name)) * 10"

definition text_x :: "string \<Rightarrow> int" where
  "text_x icon_name = (256 - text_width icon_name) div 2"

definition text_y :: int where
  "text_y = 128 - 10"

section \<open>The label as the specification words it\<close>

text \<open>
  The specification derives the label in three steps: strip a trailing
  \<^verbatim>\<open>_icon\<close> suffix, turn underscores into spaces, title-case each word.
  \<open>spec_label\<close> follows those words, to be compared with \<^const>\<open>display_name\<close>,
  which follows the code.
\<close>

definition strip_suffix :: "string \<Rightarrow> string \<Rightarrow> string" where
  "strip_suffix suf s = (if suffix suf s then take (length s - length suf) s else s)"

definition underscores_to_spaces :: "string \<Rightarrow> string" where
  "underscores_to_spaces s = map (\<lambda>c. if c = CHR ''_'' then CHR '' '' else c) s"

definition capitalize :: "string \<Rightarrow> string" where
  "capitalize w = (case w of [] \<Rightarrow> [] | c # cs \<Rightarrow> upper_char c # map lower_char cs)"

definition spec_label :: "string \<Rightarrow> string" where
  "spec_label icon_name =
     join_with CHR '' '' (map capitalize (split_on CHR '' ''
       (underscores_to_spaces (strip_suffix ''_icon'' icon_name))))"

text \<open>
  The names on which the two derivations are compared: letters and underscores
  only, and \<^verbatim>\<open>_icon\<close> nowhere but, at most, at the very end.
\<close>

definition plain_name :: "string \<Rightarrow> bool" where
  "plain_name s = list_all (\<lambda>c. is_cased c \<or> c = CHR ''_'') s"

definition icon_only_trailing :: "string \<Rightarrow> bool" where
  "icon_only_trailing s =
     (case find_str ''_icon'' s of None \<Rightarrow> True | Some i \<Rightarrow> i + 5 = length s)"

section \<open>Images and the drawing calls\<close>

text \<open>
  The imaging library is outside the repository; its calls are modelled by
  what its documentation says they do to the pixels. An image has a mode, a
  size and a colour at every coordinate; only coordinates inside the canvas
  are ever written or read.
\<close>

datatype mode = RGB | RGBA

record image =
  mode :: mode
  im_size :: "int \<times> int"
  px :: "int \<times> int \<Rightarrow> colour"

definition Image_new :: "mode \<Rightarrow> int \<times> int \<Rightarrow> colour \<Rightarrow> image" where
  "Image_new m sz c = \<lparr>mode = m, im_size = sz, px = (\<lambda>_. c)\<rparr>"

definition inside :: "image \<Rightarrow> int \<times> int \<Rightarrow> bool" where
  "inside img p =
     (0 \<le> fst p \<and> fst p < fst (im_size img) \<and> 0 \<le> snd p \<and> snd p < snd (im_size img))"

text \<open>Reading a pixel: nothing outside the canvas.\<close>

definition pixel_at :: "image \<Rightarrow> int \<times> int \<Rightarrow> colour option" where
  "pixel_at img p = (if inside img p then Some (px img p) else None)"

text \<open>A three-channel colour drawn on an RGBA canvas is fully opaque.\<close>

definition getink :: "mode \<Rightarrow> colour \<Rightarrow> colour" where
  "getink m c = (if m = RGBA \<and> length c = 3 then c @ [255] else c)"

text \<open>
  \<^verbatim>\<open>draw.rectangle(xy, fill, outline, width)\<close>: the box includes both corner
  points; it is filled first, then the outline is drawn inside it, \<open>width\<close>
  pixels thick, unless it has the fill's colour or no width.
\<close>

definition draw_rectangle ::
  "image \<Rightarrow> int \<times> int \<times> int \<times> int \<Rightarrow> colour \<Rightarrow> colour \<Rightarrow> int \<Rightarrow> image" where
  "draw_rectangle img xy fill outline width =
     (case xy of (x0, y0, x1, y1) \<Rightarrow>
        img\<lparr>px := (\<lambda>(x, y).
          if inside img (x, y) \<and> x0 \<le> x \<and> x \<le> x1 \<and> y0 \<le> y \<and> y \<le> y1
          then (if getink (mode img) outline \<noteq> getink (mode img) fill \<and> width \<noteq> 0 \<and>
                   (x < x0 + width \<or> x1 - width < x \<or> y < y0 + width \<or> y1 - width < y)
                then getink (mode img) outline
                else getink (mode img) fill)
          else px img (x, y))\<rparr>)"

text \<open>
  \<^verbatim>\<open>draw.text(xy, text, fill)\<close> with the default font. The glyphs are the
  library's: a font gives, for a string, the coverage of every pixel offset
  from the anchor, a byte. The ink is laid on the canvas through that
  coverage as the library's compositing does it: \<open>DIV255\<close> divides by 255
  rounding to the nearest, \<open>BLEND\<close> mixes one channel, and on a canvas with an
  alpha channel the colour channels of a fully transparent pixel take the
  ink whole wherever the coverage is not zero.
\<close>

type_synonym font = "string \<Rightarrow> int \<times> int \<Rightarrow> 8 word"

definition DIV255 :: "nat \<Rightarrow> nat" where
  "DIV255 a = (let tmp = a + 128 in (tmp div 256 + tmp) div 256)"

definition BLEND :: "nat \<Rightarrow> nat \<Rightarrow> nat \<Rightarrow> nat" where
  "BLEND m in1 in2 = DIV255 (in1 * (255 - m) + in2 * m)"

fun blend :: "mode \<Rightarrow> 8 word \<Rightarrow> colour \<Rightarrow> colour \<Rightarrow> colour" where
  "blend RGBA m [r, g, b, a] [ir, ig, ib, ia] =
     (let cover = unat m;
          channel_mask =
            (if cover \<noteq> 0 then 255 - (255 - cover) * (1 - (255 - a) div 255) else cover)
      in [BLEND channel_mask r ir, BLEND channel_mask g ig, BLEND channel_mask b ib,
          BLEND cover a ia])"
| "blend md m old ink = map2 (BLEND (unat m)) old ink"

definition draw_text :: "font \<Rightarrow> image \<Rightarrow> int \<times> int \<Rightarrow> string \<Rightarrow> colour \<Rightarrow> image" where
  "draw_text font img xy s fill =
     img\<lparr>px := (\<lambda>p.
       if inside img p
       then blend (mode img) (font s (fst p - fst xy, snd p - snd xy)) (px img p)
              (getink (mode img) fill)
       else px img p)\<rparr>"

section \<open>The loop bodies\<close>

text \<open>
  \<^verbatim>\<open>create_icons.py\<close>, lines 26 to 46: the image of one icon, first up to the
  rectangle, then with the label, and the path it is saved to.
\<close>

definition boxed_A :: "string \<Rightarrow> image" where
  "boxed_A icon_name =
     draw_rectangle (Image_new RGBA (256, 256) [0, 0, 0, 0])
       (20, 20, 236, 236) (color icon_name) [255, 255, 255] 5"

definition icon_image_A :: "font \<Rightarrow> string \<Rightarrow> image" where
  "icon_image_A font icon_name =
     draw_text font (boxed_A icon_name) (text_x icon_name, text_y)
       (display_name icon_name) [255, 255, 255]"

definition path_A :: "string \<Rightarrow> string" where
  "path_A icon_name = path_join ''assets/product_icons'' (icon_name @ ''.png'')"

text \<open>
  \<^verbatim>\<open>create_product_icons.py\<close>, lines 21 to 28. The loop variable \<open>icon\<close>
  enters the path and nothing else.
\<close>

definition icon_image_B :: "string \<Rightarrow> image" where
  "icon_image_B icon =
     draw_rectangle (Image_new RGB (256, 256) [100, 150, 200])
       (50, 50, 206, 206) [70, 90, 150] [255, 255, 255] 3"

definition path_B :: "string \<Rightarrow> string" where
  "path_B icon = ''assets/product_icons/'' @ icon @ ''.png''"

section \<open>The file system and the two scripts\<close>

text \<open>
  What the scripts do to the outside: entries of the file system, lines on
  standard output, and the sequence of file-system calls they issue. A file
  holds the image that was encoded into it, or the remains of a write that
  failed.
\<close>

datatype error =
    FileExistsError string
  | NotADirectoryError string
  | IsADirectoryError string
  | FileNotFoundError string
  | OSError nat string

datatype content = PNG image | Partial

datatype node = Dir | File content

datatype call = Makedirs string | Save string

record world =
  files :: "string \<Rightarrow> node option"
  stdout :: "string list"
  calls :: "call list"

text \<open>
  The failures the operating system may add (permission denied, disk full):
  for a path, the error number it answers a \<^verbatim>\<open>mkdir\<close> or a write with, and
  for a write what the failure leaves at that path.
\<close>

datatype residue = Untouched | Removed | Cut

record faults =
  mkdir_fault :: "string \<Rightarrow> nat option"
  write_fault :: "string \<Rightarrow> (nat \<times> residue) option"

text \<open>A statement either completes or raises; an exception ends the script.\<close>

datatype outcome = Done world | Raised error world

definition print_line :: "string \<Rightarrow> world \<Rightarrow> world" where
  "print_line s w = w\<lparr>stdout := stdout w @ [s]\<rparr>"

text \<open>
  \<^verbatim>\<open>os.makedirs(name, exist_ok=True)\<close>: every directory of the chain that is
  missing is created; one that exists is kept; a file in the way raises.
\<close>

fun makedirs_each :: "faults \<Rightarrow> string list \<Rightarrow> world \<Rightarrow> outcome" where
  "makedirs_each os [] w = Done w"
| "makedirs_each os (p # ps) w =
     (case files w p of
        Some Dir \<Rightarrow> makedirs_each os ps w
      | Some (File _) \<Rightarrow>
          Raised (if ps = [] then FileExistsError p else NotADirectoryError (last ps)) w
      | None \<Rightarrow>
          (case mkdir_fault os p of
             Some e \<Rightarrow> Raised (OSError e p) w
           | None \<Rightarrow> makedirs_each os ps (w\<lparr>files := (files w)(p \<mapsto> Dir)\<rparr>)))"

definition makedirs :: "faults \<Rightarrow> string \<Rightarrow> world \<Rightarrow> outcome" where
  "makedirs os name w = makedirs_each os (dirs_of name) (w\<lparr>calls := calls w @ [Makedirs name]\<rparr>)"

text \<open>
  \<^verbatim>\<open>img.save(path)\<close>: the file is opened for writing, which needs its
  directory and fails on a directory; then the image is encoded into it,
  replacing what was there.
\<close>

definition save :: "faults \<Rightarrow> image \<Rightarrow> string \<Rightarrow> world \<Rightarrow> outcome" where
  "save os img path w0 =
     (let w = w0\<lparr>calls := calls w0 @ [Save path]\<rparr> in
      if dirname path \<noteq> [] \<and> files w (dirname path) = None
        then Raised (FileNotFoundError path) w
      else if dirname path \<noteq> [] \<and> files w (dirname path) \<noteq> Some Dir
        then Raised (NotADirectoryError path) w
      else if files w path = Some Dir
        then Raised (IsADirectoryError path) w
      else (case write_fault os path of
              Some (e, r) \<Rightarrow>
                Raised (OSError e path)
                  (w\<lparr>files := (case r of
                                  Untouched \<Rightarrow> files w
                                | Removed \<Rightarrow> (files w)(path := None)
                                | Cut \<Rightarrow> (files w)(path \<mapsto> File Partial))\<rparr>)
            | None \<Rightarrow> Done (w\<lparr>files := (files w)(path \<mapsto> File (PNG img))\<rparr>)))"

text \<open>\<^verbatim>\<open>create_icons.py\<close>: the loop of line 24 and the whole script.\<close>

fun loop_A :: "font \<Rightarrow> faults \<Rightarrow> string list \<Rightarrow> world \<Rightarrow> outcome" where
  "loop_A font os [] w = Done w"
| "loop_A font os (icon_name # rest) w =
     (case save os (icon_image_A font icon_name) (path_A icon_name) w of
        Raised e w' \<Rightarrow> Raised e w'
      | Done w' \<Rightarrow> loop_A font os rest (print_line (''Created '' @ path_A icon_name) w'))"

definition create_icons :: "font \<Rightarrow> faults \<Rightarrow> world \<Rightarrow> outcome" where
  "create_icons font os w =
     (case makedirs os ''assets/product_icons'' w of
        Raised e w' \<Rightarrow> Raised e w'
      | Done w1 \<Rightarrow>
          (case loop_A font os icons w1 of
             Raised e w' \<Rightarrow> Raised e w'
           | Done w2 \<Rightarrow> Done (print_line ''All product icons created successfully!'' w2)))"

text \<open>\<^verbatim>\<open>create_product_icons.py\<close>: the loop of line 17 and the whole script.\<close>

fun loop_B :: "faults \<Rightarrow> string list \<Rightarrow> world \<Rightarrow> outcome" where
  "loop_B os [] w = Done w"
| "loop_B os (icon # rest) w =
     (case save os (icon_image_B icon) (path_B icon) (print_line (''Creating '' @ icon) w) of
        Raised e w' \<Rightarrow> Raised e w'
      | Done w' \<Rightarrow> loop_B os rest (print_line (''Saved '' @ path_B icon) w'))"

definition create_product_icons :: "faults \<Rightarrow> world \<Rightarrow> outcome" where
  "create_product_icons os w =
     (case makedirs os ''assets/product_icons'' w of
        Raised e w' \<Rightarrow> Raised e w'
      | Done w1 \<Rightarrow>
          (case loop_B os icons w1 of
             Raised e w' \<Rightarrow> Raised e w'
           | Done w2 \<Rightarrow> Done (print_line ''All product icons created successfully!'' w2)))"

section \<open>Observing a run\<close>

text \<open>The world a run ends in, completed or not.\<close>

definition world_of :: "outcome \<Rightarrow> world" where
  "world_of r = (case r of Done w \<Rightarrow> w | Raised e w \<Rightarrow> w)"

text \<open>
  A starting point for concrete runs: nothing on disk, nothing printed, no
  call issued; and an operating system that adds no failure of its own.
\<close>

definition empty_world :: world where
  "empty_world = \<lparr>files = (\<lambda>_. None), stdout = [], calls = []\<rparr>"

definition no_faults :: faults where
  "no_faults = \<lparr>mkdir_fault = (\<lambda>_. None), write_fault = (\<lambda>_. None)\<rparr>"

text \<open>
  A disk an earlier run has been on: the directories are there, the first
  icon's file is the remains of a failed write, the second holds an image of
  the other script.
\<close>

definition stale_world :: world where
  "stale_world =
     \<lparr>files = ((\<lambda>_. None)
         (''assets'' \<mapsto> Dir, ''assets/product_icons'' \<mapsto> Dir,
          ''assets/product_icons/hobo_cape_icon.png'' \<mapsto> File Partial,
          ''assets/product_icons/cool_shades_icon.png''
             \<mapsto> File (PNG (icon_image_B ''cool_shades_icon'')))),
      stdout = [], calls = []\<rparr>"

text \<open>A disk on which a regular file named \<^verbatim>\<open>assets\<close> is in the way.\<close>

definition blocked_world :: world where
  "blocked_world =
     \<lparr>files = ((\<lambda>_. None)(''assets'' \<mapsto> File Partial)), stdout = [], calls = []\<rparr>"

text \<open>A font that draws nothing, for runs in which the glyphs do not matter.\<close>

definition blank_font :: font where
  "blank_font s p = 0"

section \<open>The label\<close>

lemma replace_char: "replace [a] [b] s = map (\<lambda>c. if c = a then b else c) s"
  by (induction s) auto

lemma find_None_replace: "find_str (a # as) s = None \<Longrightarrow> replace (a # as) new s = s"
  by (induction s) (auto split: if_splits)

lemma find_None_not_suffix: "find_str (a # as) s = None \<Longrightarrow> \<not> suffix (a # as) s"
proof (induction s)
  case Nil
  then show ?case by simp
next
  case (Cons c cs)
  then have np: "\<not> prefix (a # as) (c # cs)" and n: "find_str (a # as) cs = None"
    by (auto split: if_splits)
  show ?case
  proof
    assume "suffix (a # as) (c # cs)"
    then have "suffix (a # as) cs \<or> a # as = c # cs"
      by (auto simp: suffix_Cons)
    with Cons.IH[OF n] np show False by auto
  qed
qed

lemma find_last_replace:
  "find_str (a # as) s = Some i \<Longrightarrow> i + length (a # as) = length s \<Longrightarrow>
     replace (a # as) [] s = take i s \<and> suffix (a # as) s"
proof (induction s arbitrary: i)
  case Nil
  then show ?case by simp
next
  case (Cons c cs)
  show ?case
  proof (cases "prefix (a # as) (c # cs)")
    case True
    with Cons.prems have i0: "i = 0" by simp
    with Cons.prems have len: "length as = length cs" by simp
    with True have eq: "a # as = c # cs" by (auto simp: prefix_def)
    then show ?thesis using i0 len by simp
  next
    case False
    with Cons.prems obtain j where j: "find_str (a # as) cs = Some j" "i = Suc j" by auto
    with Cons.prems have "j + length (a # as) = length cs" by simp
    from Cons.IH[OF j(1) this] False j show ?thesis by (auto simp: suffix_Cons)
  qed
qed

lemma split_on_nonempty: "split_on sep s \<noteq> []"
  by (induction s) (auto split: list.splits)

lemma join_with_Cons: "ws \<noteq> [] \<Longrightarrow> join_with sep (w # ws) = w @ sep # join_with sep ws"
  by (cases ws) auto

lemma space_not_cased: "\<not> is_cased CHR '' ''"
  by (simp add: is_cased_def is_upper_def is_lower_def)

lemma space_fixed: "upper_char CHR '' '' = CHR '' ''" "lower_char CHR '' '' = CHR '' ''"
  by (simp_all add: upper_char_def lower_char_def is_upper_def is_lower_def)

lemma title_from_space:
  "title_from b (CHR '' '' # cs) = CHR '' '' # title_from False cs"
  by (simp add: space_not_cased space_fixed)

lemma title_from_cased:
  "is_cased c \<Longrightarrow>
     title_from b (c # cs) = (if b then lower_char c else upper_char c) # title_from True cs"
  by simp

lemma split_on_space: "split_on CHR '' '' (CHR '' '' # cs) = [] # split_on CHR '' '' cs"
  by simp

lemma split_on_other:
  "c \<noteq> sep \<Longrightarrow> split_on sep cs = w # ws \<Longrightarrow> split_on sep (c # cs) = (c # w) # ws"
  by simp

lemma capitalize_simps:
  "capitalize [] = []" "capitalize (c # cs) = upper_char c # map lower_char cs"
  by (simp_all add: capitalize_def)

text \<open>
  On letters and spaces, the one-pass \<^const>\<open>title\<close> and word-by-word
  capitalisation agree; the second conjunct carries the induction through a
  word already begun.
\<close>

lemma title_from_words:
  assumes "\<forall>c \<in> set s. is_cased c \<or> c = CHR '' ''"
  shows "title_from False s = join_with CHR '' '' (map capitalize (split_on CHR '' '' s))
       \<and> title_from True s =
           (case split_on CHR '' '' s of
              [] \<Rightarrow> []
            | w # ws \<Rightarrow> join_with CHR '' '' (map lower_char w # map capitalize ws))"
  using assms
proof (induction s)
  case Nil
  then show ?case by (simp add: capitalize_simps)
next
  case (Cons c cs)
  then have IH1: "title_from False cs = join_with CHR '' '' (map capitalize (split_on CHR '' '' cs))"
    and IH2: "title_from True cs =
           (case split_on CHR '' '' cs of
              [] \<Rightarrow> []
            | w # ws \<Rightarrow> join_with CHR '' '' (map lower_char w # map capitalize ws))"
    by simp_all
  obtain w ws where sp: "split_on CHR '' '' cs = w # ws"
    using split_on_nonempty[of "CHR '' ''" cs] by (cases "split_on CHR '' '' cs") auto
  have IH2': "title_from True cs = join_with CHR '' '' (map lower_char w # map capitalize ws)"
    using IH2 sp by simp
  have IH1': "title_from False cs = join_with CHR '' '' (capitalize w # map capitalize ws)"
    using IH1 sp by simp
  show ?case
  proof (cases "c = CHR '' ''")
    case True
    have s1: "split_on CHR '' '' (c # cs) = [] # w # ws"
      using True sp by (simp only: split_on_space)
    have t: "title_from False (c # cs) = CHR '' '' # title_from False cs"
         "title_from True (c # cs) = CHR '' '' # title_from False cs"
      using True by (simp_all only: title_from_space)
    show ?thesis
      unfolding s1 t IH1' by (simp add: capitalize_simps join_with_Cons del: title_from.simps)
  next
    case False
    with Cons.prems have cased: "is_cased c" by simp
    have s1: "split_on CHR '' '' (c # cs) = (c # w) # ws"
      using split_on_other[OF False sp] .
    have t: "title_from False (c # cs) = upper_char c # title_from True cs"
         "title_from True (c # cs) = lower_char c # title_from True cs"
      using title_from_cased[OF cased] by simp_all
    show ?thesis
      unfolding s1 t IH2'
      by (cases ws) (simp_all add: capitalize_simps del: title_from.simps)
  qed
qed

lemma replace_icon_strip:
  assumes once: "icon_only_trailing icon_name"
  shows "replace ''_icon'' '''' icon_name = strip_suffix ''_icon'' icon_name"
proof (cases "find_str ''_icon'' icon_name")
  case None
  have r: "replace ''_icon'' '''' icon_name = icon_name"
    using None by (rule find_None_replace)
  have ns: "\<not> suffix ''_icon'' icon_name"
    using None by (rule find_None_not_suffix)
  show ?thesis unfolding r strip_suffix_def using ns by (simp only: if_False)
next
  case (Some i)
  with once have len: "i + length ''_icon'' = length icon_name"
    by (simp add: icon_only_trailing_def)
  from find_last_replace[OF Some len]
  have r: "replace ''_icon'' '''' icon_name = take i icon_name"
    and s: "suffix ''_icon'' icon_name" by simp_all
  from len have i: "length icon_name - length ''_icon'' = i" by arith
  show ?thesis unfolding r strip_suffix_def i using s by (simp only: if_True)
qed

lemma display_name_spec_label:
  assumes letters: "plain_name icon_name"
    and once: "icon_only_trailing icon_name"
  shows "display_name icon_name = spec_label icon_name"
proof -
  let ?t = "strip_suffix ''_icon'' icon_name"
  have strip: "replace ''_icon'' '''' icon_name = ?t"
    using once by (rule replace_icon_strip)
  have sub: "set ?t \<subseteq> set icon_name"
    unfolding strip_suffix_def by (auto dest: in_set_takeD)
  have us: "replace ''_'' '' '' ?t = underscores_to_spaces ?t"
    unfolding underscores_to_spaces_def by (rule replace_char)
  have "\<forall>c \<in> set (underscores_to_spaces ?t). is_cased c \<or> c = CHR '' ''"
    using letters sub unfolding underscores_to_spaces_def plain_name_def list_all_iff by auto
  from title_from_words[OF this]
  have "title_from False (underscores_to_spaces ?t)
        = join_with CHR '' '' (map capitalize (split_on CHR '' '' (underscores_to_spaces ?t)))"
    by (rule conjunct1)
  then show ?thesis
    unfolding display_name_def spec_label_def title_def strip us .
qed

lemma display_name_icons:
  "map display_name icons = [''Hobo Cape'', ''Cool Shades'', ''Cardboard Armor'', ''Extra Life'']"
  by code_simp

lemma spec_label_icons:
  "map spec_label icons = [''Hobo Cape'', ''Cool Shades'', ''Cardboard Armor'', ''Extra Life'']"
  by code_simp

text \<open>
  C2, as the code has it. The label is the name with \<^emph>\<open>every\<close> occurrence of
  \<^verbatim>\<open>_icon\<close> removed, underscores turned into spaces, and title-cased. For a
  name of letters and underscores in which \<^verbatim>\<open>_icon\<close> occurs nowhere but as
  the trailing suffix, that is the label the specification describes (strip
  the trailing suffix, underscores to spaces, title-case each word). The four
  names of the list are such names: their labels are Hobo Cape, Cool Shades,
  Cardboard Armor and Extra Life under both derivations.
\<close>

theorem display_name_refines_spec_label:
  "(plain_name icon_name \<and> icon_only_trailing icon_name \<longrightarrow>
      display_name icon_name = spec_label icon_name)
   \<and> list_all plain_name icons \<and> list_all icon_only_trailing icons
   \<and> map display_name icons = [''Hobo Cape'', ''Cool Shades'', ''Cardboard Armor'', ''Extra Life'']
   \<and> map spec_label icons = [''Hobo Cape'', ''Cool Shades'', ''Cardboard Armor'', ''Extra Life'']"
proof -
  have "list_all plain_name icons" by code_simp
  moreover have "list_all icon_only_trailing icons" by code_simp
  ultimately show ?thesis
    using display_name_spec_label[of icon_name] display_name_icons spec_label_icons
    by blast
qed

theorem display_name_refines_spec_label_witness:
  "plain_name ''extra_life_icon'' \<and> icon_only_trailing ''extra_life_icon''
   \<and> display_name ''extra_life_icon'' = spec_label ''extra_life_icon''
   \<and> spec_label ''extra_life_icon'' = ''Extra Life''"
proof -
  have p: "plain_name ''extra_life_icon''" by code_simp
  have t: "icon_only_trailing ''extra_life_icon''" by code_simp
  have v: "spec_label ''extra_life_icon'' = ''Extra Life''" by code_simp
  from display_name_refines_spec_label[of "''extra_life_icon''"] p t
  have "display_name ''extra_life_icon'' = spec_label ''extra_life_icon''" by blast
  with p t v show ?thesis by blast
qed

text \<open>
  The claim as stated fails on a name that holds \<^verbatim>\<open>_icon\<close> in the middle: the
  code removes that occurrence too, stripping the trailing suffix does not.
\<close>

theorem display_name_inner_icon_counterexample:
  "display_name ''mini_icon_pack_icon'' = ''Mini Pack''
   \<and> spec_label ''mini_icon_pack_icon'' = ''Mini Icon Pack''
   \<and> display_name ''mini_icon_pack_icon'' \<noteq> spec_label ''mini_icon_pack_icon''"
  by code_simp

section \<open>The pixels of an icon\<close>

lemma color_cases:
  "color icon_name \<in> {[120, 120, 120], [50, 50, 50], [160, 120, 80], [200, 50, 50], [100, 100, 100]}"
  by (simp add: color_def colors_get_def colors_def)

lemma color_length: "length (color icon_name) = 3"
  using color_cases[of icon_name] by auto

lemma color_not_white: "color icon_name \<noteq> [255, 255, 255]"
  using color_cases[of icon_name] by auto

lemma ink_color: "getink RGBA (color icon_name) = color icon_name @ [255]"
  by (simp add: getink_def color_length)

lemma color_icons:
  "map color icons = [[120, 120, 120], [50, 50, 50], [160, 120, 80], [200, 50, 50]]"
  by code_simp

lemma px_boxed_A:
  "px (boxed_A icon_name) (x, y) =
     (if 0 \<le> x \<and> x < 256 \<and> 0 \<le> y \<and> y < 256 \<and> 20 \<le> x \<and> x \<le> 236 \<and> 20 \<le> y \<and> y \<le> 236
      then (if x < 25 \<or> 231 < x \<or> y < 25 \<or> 231 < y
            then [255, 255, 255, 255] else color icon_name @ [255])
      else [0, 0, 0, 0])"
  using color_not_white[of icon_name]
  by (simp add: boxed_A_def draw_rectangle_def Image_new_def inside_def ink_color)
     (simp add: getink_def)

lemma inside_boxed_A: "inside (boxed_A icon_name) (x, y) = (0 \<le> x \<and> x < 256 \<and> 0 \<le> y \<and> y < 256)"
  by (simp add: boxed_A_def draw_rectangle_def Image_new_def inside_def)

lemma mode_boxed_A: "mode (boxed_A icon_name) = RGBA"
  by (simp add: boxed_A_def draw_rectangle_def Image_new_def)

lemma px_icon_image_A:
  "px (icon_image_A font icon_name) (x, y) =
     (if 0 \<le> x \<and> x < 256 \<and> 0 \<le> y \<and> y < 256
      then blend RGBA (font (display_name icon_name) (x - text_x icon_name, y - text_y))
             (px (boxed_A icon_name) (x, y)) [255, 255, 255, 255]
      else px (boxed_A icon_name) (x, y))"
  by (simp add: icon_image_A_def draw_text_def inside_boxed_A mode_boxed_A getink_def)

lemma inside_icon_image_A:
  "inside (icon_image_A font icon_name) (x, y) = (0 \<le> x \<and> x < 256 \<and> 0 \<le> y \<and> y < 256)"
  by (simp add: icon_image_A_def draw_text_def inside_def boxed_A_def draw_rectangle_def
      Image_new_def)

lemma size_icon_image_A: "im_size (icon_image_A font icon_name) = (256, 256)"
  by (simp add: icon_image_A_def draw_text_def boxed_A_def draw_rectangle_def Image_new_def)

lemma px_icon_image_B:
  "px (icon_image_B icon) (x, y) =
     (if 0 \<le> x \<and> x < 256 \<and> 0 \<le> y \<and> y < 256 \<and> 50 \<le> x \<and> x \<le> 206 \<and> 50 \<le> y \<and> y \<le> 206
      then (if x < 53 \<or> 203 < x \<or> y < 53 \<or> 203 < y then [255, 255, 255] else [70, 90, 150])
      else [100, 150, 200])"
  by (simp add: icon_image_B_def draw_rectangle_def Image_new_def inside_def getink_def)

lemma inside_icon_image_B:
  "inside (icon_image_B icon) (x, y) = (0 \<le> x \<and> x < 256 \<and> 0 \<le> y \<and> y < 256)"
  by (simp add: icon_image_B_def draw_rectangle_def Image_new_def inside_def)

lemma size_icon_image_B: "im_size (icon_image_B icon) = (256, 256)"
  by (simp add: icon_image_B_def draw_rectangle_def Image_new_def)








lemma text_x_icons: "map text_x icons = [83, 73, 53, 78]"
  by code_simp

lemma text_x_exact: "text_x icon_name = 128 - 5 * int (length (display_name icon_name))"
  by (simp add: text_x_def text_width_def)

lemma pixel_at_icon_image_A:
  "pixel_at (icon_image_A font icon_name) (x, y) =
     (if 0 \<le> x \<and> x < 256 \<and> 0 \<le> y \<and> y < 256
      then Some (blend RGBA (font (display_name icon_name) (x - text_x icon_name, y - text_y))
                   (px (boxed_A icon_name) (x, y)) [255, 255, 255, 255])
      else None)"
  by (simp add: pixel_at_def inside_icon_image_A px_icon_image_A)



text \<open>
  C3, as the code has it. Each script draws its rectangle with corners
  \<open>(m, m)\<close> and \<open>(256 - m, 256 - m)\<close>, both included. Right after the call
  the canvas holds that one square and nothing else: an outline band of
  white, five pixels wide for \<open>m = 20\<close> in \<^verbatim>\<open>create_icons.py\<close> and three
  wide for \<open>m = 50\<close> in \<^verbatim>\<open>create_product_icons.py\<close>; inside it the fill;
  around it the untouched background. In \<^verbatim>\<open>create_icons.py\<close> the fill is the
  colour configured for the name, fully opaque, for the four names the
  colours of the table. In \<^verbatim>\<open>create_product_icons.py\<close> the fill is
  (70, 90, 150) for every name: that script configures no colour per icon.
\<close>

theorem one_inset_rectangle:
  "pixel_at (boxed_A icon_name) (x, y) =
     (if 0 \<le> x \<and> x < 256 \<and> 0 \<le> y \<and> y < 256
      then Some (if 20 \<le> x \<and> x \<le> 256 - 20 \<and> 20 \<le> y \<and> y \<le> 256 - 20
                 then (if x < 20 + 5 \<or> 256 - 20 - 5 < x \<or> y < 20 + 5 \<or> 256 - 20 - 5 < y
                       then [255, 255, 255, 255] else color icon_name @ [255])
                 else [0, 0, 0, 0])
      else None)
   \<and> list_all (\<lambda>(n, c). color n = c) colors
   \<and> map color icons = [[120, 120, 120], [50, 50, 50], [160, 120, 80], [200, 50, 50]]
   \<and> pixel_at (icon_image_B icon) (x, y) =
     (if 0 \<le> x \<and> x < 256 \<and> 0 \<le> y \<and> y < 256
      then Some (if 50 \<le> x \<and> x \<le> 256 - 50 \<and> 50 \<le> y \<and> y \<le> 256 - 50
                 then (if x < 50 + 3 \<or> 256 - 50 - 3 < x \<or> y < 50 + 3 \<or> 256 - 50 - 3 < y
                       then [255, 255, 255] else [70, 90, 150])
                 else [100, 150, 200])
      else None)"
proof -
  have t: "list_all (\<lambda>(n, c). color n = c) colors"
    by code_simp
  show ?thesis
    using t color_icons
    by (simp add: pixel_at_def inside_boxed_A inside_icon_image_B px_boxed_A px_icon_image_B)
qed

text \<open>
  The claim as stated fails on \<^verbatim>\<open>create_product_icons.py\<close>: the colour
  configured for \<^verbatim>\<open>hobo_cape_icon\<close> is (120, 120, 120), and the inside of the
  rectangle that script draws for it is (70, 90, 150).
\<close>

theorem one_inset_rectangle_counterexample:
  "map_of colors ''hobo_cape_icon'' = Some [120, 120, 120]
   \<and> pixel_at (icon_image_B ''hobo_cape_icon'') (100, 100) = Some [70, 90, 150]
   \<and> pixel_at (icon_image_B ''hobo_cape_icon'') (100, 100) \<noteq> Some [120, 120, 120]"
proof -
  have col: "map_of colors ''hobo_cape_icon'' = Some [120, 120, 120]"
    by code_simp
  have b: "pixel_at (icon_image_B ''hobo_cape_icon'') (100, 100) = Some [70, 90, 150]"
    by (simp add: pixel_at_def inside_icon_image_B px_icon_image_B)
  from col b show ?thesis by simp
qed

text \<open>
  C5. The label's anchor is computed from the character count alone:
  \<open>text_width\<close> is ten times the length of the label, \<open>text_x\<close> is
  \<open>(256 - text_width) div 2\<close> (rounding down, also below zero), so the
  estimated box is exactly centred; for the four names the anchors are 83,
  73, 53 and 78. The font enters only as the ink it puts at each offset from
  the anchor \<open>(text_x, 118)\<close>.
\<close>

theorem text_position_heuristic:
  "text_width icon_name = int (length (display_name icon_name)) * 10
   \<and> text_x icon_name = (256 - int (length (display_name icon_name)) * 10) div 2
   \<and> text_x icon_name + text_width icon_name + text_x icon_name = 256
   \<and> map text_x icons = [83, 73, 53, 78]
   \<and> pixel_at (icon_image_A font icon_name) (x, y) =
       (if 0 \<le> x \<and> x < 256 \<and> 0 \<le> y \<and> y < 256
        then Some (blend RGBA
          (font (display_name icon_name)
             (x - (256 - int (length (display_name icon_name)) * 10) div 2, y - 118))
          (px (boxed_A icon_name) (x, y)) [255, 255, 255, 255])
        else None)"
proof -
  have w: "text_width icon_name = int (length (display_name icon_name)) * 10"
    by (simp add: text_width_def)
  have x: "text_x icon_name = (256 - int (length (display_name icon_name)) * 10) div 2"
    by (simp add: text_x_def text_width_def)
  have c: "text_x icon_name + text_width icon_name + text_x icon_name = 256"
    by (simp add: text_x_exact text_width_def)
  have p: "pixel_at (icon_image_A font icon_name) (x, y) =
       (if 0 \<le> x \<and> x < 256 \<and> 0 \<le> y \<and> y < 256
        then Some (blend RGBA
          (font (display_name icon_name)
             (x - (256 - int (length (display_name icon_name)) * 10) div 2, y - 118))
          (px (boxed_A icon_name) (x, y)) [255, 255, 255, 255])
        else None)"
    unfolding pixel_at_icon_image_A x text_y_def by simp
  from w x c p text_x_icons show ?thesis by blast
qed

text \<open>
  C9. \<^verbatim>\<open>colors.get\<close> falls back on the gray (100, 100, 100) for a name the
  table does not hold; the table holds exactly the names of the list, in
  order, so each of them gets its configured colour; and the colour so chosen
  is the one the rectangle's interior has, fully opaque.
\<close>

theorem fill_color_default:
  "(map_of colors icon_name = None \<longrightarrow> color icon_name = [100, 100, 100])
   \<and> map fst colors = icons
   \<and> map color icons = map snd colors
   \<and> (25 \<le> x \<and> x \<le> 231 \<and> 25 \<le> y \<and> y \<le> 231 \<longrightarrow>
        pixel_at (boxed_A icon_name) (x, y) = Some (color icon_name @ [255]))"
proof -
  have a: "map_of colors icon_name = None \<longrightarrow> color icon_name = [100, 100, 100]"
    by (simp add: color_def colors_get_def)
  have b: "map fst colors = icons"
    by code_simp
  have c: "map color icons = map snd colors"
    by code_simp
  have d: "25 \<le> x \<and> x \<le> 231 \<and> 25 \<le> y \<and> y \<le> 231 \<longrightarrow>
        pixel_at (boxed_A icon_name) (x, y) = Some (color icon_name @ [255])"
    by (simp add: pixel_at_def inside_boxed_A px_boxed_A)
  from a b c d show ?thesis by blast
qed

theorem fill_color_default_witness:
  "map_of colors ''golden_crown_icon'' = None
   \<and> color ''golden_crown_icon'' = [100, 100, 100]
   \<and> pixel_at (boxed_A ''golden_crown_icon'') (128, 128) = Some [100, 100, 100, 255]"
proof -
  have n: "map_of colors ''golden_crown_icon'' = None"
    by code_simp
  from fill_color_default[of "''golden_crown_icon''" 128 128] n
  have "color ''golden_crown_icon'' = [100, 100, 100]"
    and "pixel_at (boxed_A ''golden_crown_icon'') (128, 128) = Some (color ''golden_crown_icon'' @ [255])"
    by simp_all
  with n show ?thesis by simp
qed

section \<open>The calls on the file system\<close>

lemma dirs_of_target: "dirs_of ''assets/product_icons'' = [''assets'', ''assets/product_icons'']"
  by code_simp

lemma paths_A: "map path_A icons =
  [''assets/product_icons/hobo_cape_icon.png'', ''assets/product_icons/cool_shades_icon.png'',
   ''assets/product_icons/cardboard_armor_icon.png'', ''assets/product_icons/extra_life_icon.png'']"
  by code_simp

lemma paths_B: "map path_B icons =
  [''assets/product_icons/hobo_cape_icon.png'', ''assets/product_icons/cool_shades_icon.png'',
   ''assets/product_icons/cardboard_armor_icon.png'', ''assets/product_icons/extra_life_icon.png'']"
  by code_simp

lemma dirname_paths_A: "list_all (\<lambda>n. dirname (path_A n) = ''assets/product_icons'') icons"
  by code_simp

lemma dirname_paths_B: "list_all (\<lambda>n. dirname (path_B n) = ''assets/product_icons'') icons"
  by code_simp

lemma distinct_paths_A: "distinct (map path_A icons)"
  by code_simp

lemma distinct_paths_B: "distinct (map path_B icons)"
  by code_simp

lemma paths_A_not_dirs: "list_all (\<lambda>n. path_A n \<notin> set (dirs_of ''assets/product_icons'')) icons"
  by code_simp

lemma paths_B_not_dirs: "list_all (\<lambda>n. path_B n \<notin> set (dirs_of ''assets/product_icons'')) icons"
  by code_simp

lemma world_of_simps [simp]: "world_of (Done w) = w" "world_of (Raised e w) = w"
  by (simp_all add: world_of_def)

lemma save_calls: "calls (world_of (save os img p w)) = calls w @ [Save p]"
  by (simp add: save_def Let_def split: option.splits residue.splits prod.splits)

lemma save_stdout: "stdout (world_of (save os img p w)) = stdout w"
  by (simp add: save_def Let_def split: option.splits residue.splits prod.splits)

lemma save_other: "q \<noteq> p \<Longrightarrow> files (world_of (save os img p w)) q = files w q"
  by (simp add: save_def Let_def split: option.splits residue.splits prod.splits)

lemma save_Done:
  "save os img p w = Done w' \<Longrightarrow>
     w' = w\<lparr>calls := calls w @ [Save p], files := (files w)(p \<mapsto> File (PNG img))\<rparr>
     \<and> write_fault os p = None \<and> files w p \<noteq> Some Dir
     \<and> (dirname p \<noteq> [] \<longrightarrow> files w (dirname p) = Some Dir)"
  by (auto simp add: save_def Let_def split: option.splits if_splits prod.splits)

lemma save_succeeds:
  "write_fault os p = None \<Longrightarrow> files w p \<noteq> Some Dir \<Longrightarrow>
   (dirname p \<noteq> [] \<longrightarrow> files w (dirname p) = Some Dir) \<Longrightarrow>
     save os img p w = Done (w\<lparr>calls := calls w @ [Save p], files := (files w)(p \<mapsto> File (PNG img))\<rparr>)"
  by (auto simp add: save_def Let_def)

lemma makedirs_each_calls: "calls (world_of (makedirs_each os ps w)) = calls w"
  by (induction ps arbitrary: w) (auto split: option.splits node.splits)

lemma makedirs_each_stdout: "stdout (world_of (makedirs_each os ps w)) = stdout w"
  by (induction ps arbitrary: w) (auto split: option.splits node.splits)

lemma makedirs_each_keeps:
  "files w q \<noteq> None \<or> q \<notin> set ps \<Longrightarrow> files (world_of (makedirs_each os ps w)) q = files w q"
  by (induction ps arbitrary: w) (auto split: option.splits node.splits)

lemma makedirs_each_Done:
  "makedirs_each os ps w = Done w' \<Longrightarrow> p \<in> set ps \<Longrightarrow> files w' p = Some Dir"
proof (induction ps arbitrary: w)
  case Nil
  then show ?case by simp
next
  case (Cons a ps)
  show ?case
  proof (cases "files w a")
    case None
    with Cons.prems obtain nf: "mkdir_fault os a = None"
      and run: "makedirs_each os ps (w\<lparr>files := (files w)(a \<mapsto> Dir)\<rparr>) = Done w'"
      by (auto split: option.splits)
    show ?thesis
    proof (cases "p \<in> set ps")
      case True
      with Cons.IH[OF run] show ?thesis by simp
    next
      case False
      with Cons.prems have "p = a" by simp
      moreover have "files (world_of (makedirs_each os ps (w\<lparr>files := (files w)(a \<mapsto> Dir)\<rparr>))) a
          = files (w\<lparr>files := (files w)(a \<mapsto> Dir)\<rparr>) a"
        by (rule makedirs_each_keeps) simp
      ultimately show ?thesis using run by simp
    qed
  next
    case (Some nd)
    with Cons.prems have d: "nd = Dir" and run: "makedirs_each os ps w = Done w'"
      by (auto split: node.splits)
    show ?thesis
    proof (cases "p \<in> set ps")
      case True
      with Cons.IH[OF run] show ?thesis by simp
    next
      case False
      with Cons.prems have "p = a" by simp
      moreover have "files (world_of (makedirs_each os ps w)) a = files w a"
        by (rule makedirs_each_keeps) (simp add: Some)
      ultimately show ?thesis using run Some d by simp
    qed
  qed
qed

lemma makedirs_each_present:
  "\<forall>p \<in> set ps. files w p = Some Dir \<Longrightarrow> makedirs_each os ps w = Done w"
  by (induction ps arbitrary: w) auto

lemma makedirs_each_succeeds:
  "\<forall>p \<in> set ps. mkdir_fault os p = None \<and> (files w p = None \<or> files w p = Some Dir) \<Longrightarrow>
     \<exists>w'. makedirs_each os ps w = Done w'"
proof (induction ps arbitrary: w)
  case Nil
  then show ?case by simp
next
  case (Cons a ps)
  show ?case
  proof (cases "files w a")
    case None
    let ?w = "w\<lparr>files := (files w)(a \<mapsto> Dir)\<rparr>"
    have "\<forall>p \<in> set ps. mkdir_fault os p = None \<and> (files ?w p = None \<or> files ?w p = Some Dir)"
      using Cons.prems by auto
    from Cons.IH[OF this] show ?thesis using None Cons.prems by simp
  next
    case (Some nd)
    with Cons.prems have "nd = Dir" by auto
    moreover have "\<forall>p \<in> set ps. mkdir_fault os p = None \<and> (files w p = None \<or> files w p = Some Dir)"
      using Cons.prems by auto
    from Cons.IH[OF this] show ?thesis using Some \<open>nd = Dir\<close> by simp
  qed
qed

lemma makedirs_calls: "calls (world_of (makedirs os name w)) = calls w @ [Makedirs name]"
  by (simp add: makedirs_def makedirs_each_calls)

lemma makedirs_stdout: "stdout (world_of (makedirs os name w)) = stdout w"
  by (simp add: makedirs_def makedirs_each_stdout)

lemma makedirs_keeps:
  "files w q \<noteq> None \<or> q \<notin> set (dirs_of name) \<Longrightarrow> files (world_of (makedirs os name w)) q = files w q"
  using makedirs_each_keeps[of "w\<lparr>calls := calls w @ [Makedirs name]\<rparr>" q "dirs_of name" os]
  by (simp add: makedirs_def)

lemma makedirs_Done:
  "makedirs os name w = Done w' \<Longrightarrow> p \<in> set (dirs_of name) \<Longrightarrow> files w' p = Some Dir"
  unfolding makedirs_def by (rule makedirs_each_Done)

lemma makedirs_present:
  "\<forall>p \<in> set (dirs_of name). files w p = Some Dir \<Longrightarrow>
     makedirs os name w = Done (w\<lparr>calls := calls w @ [Makedirs name]\<rparr>)"
  unfolding makedirs_def by (rule makedirs_each_present) simp

lemma loop_A_Done_calls:
  "loop_A font os ns w = Done w' \<Longrightarrow> calls w' = calls w @ map (\<lambda>n. Save (path_A n)) ns"
proof (induction ns arbitrary: w)
  case Nil
  then show ?case by simp
next
  case (Cons n ns)
  then obtain w1 where s: "save os (icon_image_A font n) (path_A n) w = Done w1"
    and l: "loop_A font os ns (print_line (''Created '' @ path_A n) w1) = Done w'"
    by (auto split: outcome.splits)
  from save_calls[of os "icon_image_A font n" "path_A n" w] s
  have "calls w1 = calls w @ [Save (path_A n)]" by simp
  with Cons.IH[OF l] show ?case by (simp add: print_line_def)
qed

lemma loop_A_Done_stdout:
  "loop_A font os ns w = Done w' \<Longrightarrow>
     stdout w' = stdout w @ map (\<lambda>n. ''Created '' @ path_A n) ns"
proof (induction ns arbitrary: w)
  case Nil
  then show ?case by simp
next
  case (Cons n ns)
  then obtain w1 where s: "save os (icon_image_A font n) (path_A n) w = Done w1"
    and l: "loop_A font os ns (print_line (''Created '' @ path_A n) w1) = Done w'"
    by (auto split: outcome.splits)
  from save_stdout[of os "icon_image_A font n" "path_A n" w] s
  have "stdout w1 = stdout w" by simp
  with Cons.IH[OF l] show ?case by (simp add: print_line_def)
qed

lemma loop_A_other:
  "p \<notin> path_A ` set ns \<Longrightarrow> files (world_of (loop_A font os ns w)) p = files w p"
proof (induction ns arbitrary: w)
  case Nil
  then show ?case by simp
next
  case (Cons n ns)
  then have pn: "p \<noteq> path_A n" and pns: "p \<notin> path_A ` set ns" by auto
  have sv: "files (world_of (save os (icon_image_A font n) (path_A n) w)) p = files w p"
    using pn by (rule save_other)
  show ?case
  proof (cases "save os (icon_image_A font n) (path_A n) w")
    case (Done w1)
    with sv have "files w1 p = files w p" by simp
    with Cons.IH[OF pns, of "print_line (''Created '' @ path_A n) w1"] Done
    show ?thesis by (simp add: print_line_def)
  next
    case (Raised e w1)
    with sv show ?thesis by simp
  qed
qed

lemma loop_A_Done_files:
  "loop_A font os ns w = Done w' \<Longrightarrow> distinct (map path_A ns) \<Longrightarrow> n \<in> set ns \<Longrightarrow>
     files w' (path_A n) = Some (File (PNG (icon_image_A font n)))"
proof (induction ns arbitrary: w)
  case Nil
  then show ?case by simp
next
  case (Cons m ns)
  then obtain w1 where s: "save os (icon_image_A font m) (path_A m) w = Done w1"
    and l: "loop_A font os ns (print_line (''Created '' @ path_A m) w1) = Done w'"
    by (auto split: outcome.splits)
  from Cons.prems have d: "distinct (map path_A ns)" and fresh: "path_A m \<notin> path_A ` set ns"
    by auto
  show ?case
  proof (cases "n \<in> set ns")
    case True
    from Cons.IH[OF l d True] show ?thesis .
  next
    case False
    with Cons.prems have nm: "n = m" by simp
    from save_Done[OF s] have "files w1 (path_A m) = Some (File (PNG (icon_image_A font m)))"
      by simp
    moreover from loop_A_other[OF fresh, of font os "print_line (''Created '' @ path_A m) w1"] l
    have "files w' (path_A m) = files w1 (path_A m)" by (simp add: print_line_def)
    ultimately show ?thesis using nm by simp
  qed
qed

lemma loop_A_Done_faults:
  "loop_A font os ns w = Done w' \<Longrightarrow> n \<in> set ns \<Longrightarrow> write_fault os (path_A n) = None"
proof (induction ns arbitrary: w)
  case Nil
  then show ?case by simp
next
  case (Cons m ns)
  then obtain w1 where s: "save os (icon_image_A font m) (path_A m) w = Done w1"
    and l: "loop_A font os ns (print_line (''Created '' @ path_A m) w1) = Done w'"
    by (auto split: outcome.splits)
  show ?case
  proof (cases "n = m")
    case True
    with save_Done[OF s] show ?thesis by simp
  next
    case False
    with Cons.prems have "n \<in> set ns" by simp
    from Cons.IH[OF l this] show ?thesis .
  qed
qed

lemma loop_A_Raised:
  "loop_A font os ns w = Raised e w' \<Longrightarrow>
     \<exists>k wk. k < length ns \<and> loop_A font os (take k ns) w = Done wk
       \<and> save os (icon_image_A font (ns ! k)) (path_A (ns ! k)) wk = Raised e w'"
proof (induction ns arbitrary: w)
  case Nil
  then show ?case by simp
next
  case (Cons n ns)
  show ?case
  proof (cases "save os (icon_image_A font n) (path_A n) w")
    case (Raised e1 w1)
    with Cons.prems have "e1 = e" "w1 = w'" by simp_all
    with Raised have "0 < length (n # ns) \<and> loop_A font os (take 0 (n # ns)) w = Done w
       \<and> save os (icon_image_A font ((n # ns) ! 0)) (path_A ((n # ns) ! 0)) w = Raised e w'"
      by simp
    then show ?thesis by blast
  next
    case (Done w1)
    with Cons.prems
    have "loop_A font os ns (print_line (''Created '' @ path_A n) w1) = Raised e w'" by simp
    from Cons.IH[OF this] obtain k wk where k: "k < length ns"
      and lk: "loop_A font os (take k ns) (print_line (''Created '' @ path_A n) w1) = Done wk"
      and sk: "save os (icon_image_A font (ns ! k)) (path_A (ns ! k)) wk = Raised e w'"
      by blast
    have "Suc k < length (n # ns) \<and> loop_A font os (take (Suc k) (n # ns)) w = Done wk
       \<and> save os (icon_image_A font ((n # ns) ! Suc k)) (path_A ((n # ns) ! Suc k)) wk = Raised e w'"
      using k lk sk Done by simp
    then show ?thesis by blast
  qed
qed

lemma loop_A_rerun:
  "\<forall>n \<in> set ns. write_fault os (path_A n) = None
       \<and> files w (path_A n) = Some (File (PNG (icon_image_A font n)))
       \<and> files w (dirname (path_A n)) = Some Dir \<Longrightarrow>
     \<exists>w'. loop_A font os ns w = Done w' \<and> files w' = files w"
proof (induction ns arbitrary: w)
  case Nil
  then show ?case by simp
next
  case (Cons n ns)
  let ?w1 = "w\<lparr>calls := calls w @ [Save (path_A n)],
               files := (files w)(path_A n \<mapsto> File (PNG (icon_image_A font n)))\<rparr>"
  from Cons.prems have nf: "write_fault os (path_A n) = None"
    and here: "files w (path_A n) = Some (File (PNG (icon_image_A font n)))"
    and dir: "files w (dirname (path_A n)) = Some Dir" by simp_all
  have s: "save os (icon_image_A font n) (path_A n) w = Done ?w1"
    using nf here dir by (intro save_succeeds) simp_all
  have same: "files ?w1 = files w"
    using here by (simp add: fun_upd_idem)
  let ?w2 = "print_line (''Created '' @ path_A n) ?w1"
  have same2: "files ?w2 = files w"
    using same by (simp add: print_line_def)
  have "\<forall>m \<in> set ns. write_fault os (path_A m) = None
       \<and> files ?w2 (path_A m) = Some (File (PNG (icon_image_A font m)))
       \<and> files ?w2 (dirname (path_A m)) = Some Dir"
    unfolding same2 using Cons.prems by simp
  from Cons.IH[OF this] obtain w' where "loop_A font os ns ?w2 = Done w'" "files w' = files ?w2"
    by blast
  with s same2 show ?case by simp
qed

lemma loop_A_succeeds:
  "\<forall>n \<in> set ns. write_fault os (path_A n) = None \<and> files w (path_A n) \<noteq> Some Dir
       \<and> dirname (path_A n) = d \<Longrightarrow>
   files w d = Some Dir \<Longrightarrow> d \<notin> path_A ` set ns \<Longrightarrow> distinct (map path_A ns) \<Longrightarrow>
     \<exists>w'. loop_A font os ns w = Done w'"
proof (induction ns arbitrary: w)
  case Nil
  then show ?case by simp
next
  case (Cons n ns)
  let ?w1 = "w\<lparr>calls := calls w @ [Save (path_A n)],
               files := (files w)(path_A n \<mapsto> File (PNG (icon_image_A font n)))\<rparr>"
  let ?w2 = "print_line (''Created '' @ path_A n) ?w1"
  from Cons.prems have nf: "write_fault os (path_A n) = None"
    and here: "files w (path_A n) \<noteq> Some Dir"
    and dn: "dirname (path_A n) = d" and dd: "d \<noteq> path_A n"
    and fresh: "path_A n \<notin> path_A ` set ns" by auto
  have s: "save os (icon_image_A font n) (path_A n) w = Done ?w1"
    using nf here dn Cons.prems(2) by (intro save_succeeds) simp_all
  have f2: "files ?w2 = (files w)(path_A n \<mapsto> File (PNG (icon_image_A font n)))"
    by (simp add: print_line_def)
  have "\<forall>m \<in> set ns. write_fault os (path_A m) = None \<and> files ?w2 (path_A m) \<noteq> Some Dir
       \<and> dirname (path_A m) = d"
    unfolding f2 using Cons.prems(1) fresh by auto
  moreover have "files ?w2 d = Some Dir"
    unfolding f2 using Cons.prems(2) dd by simp
  moreover have "d \<notin> path_A ` set ns" "distinct (map path_A ns)"
    using Cons.prems by auto
  ultimately obtain w' where "loop_A font os ns ?w2 = Done w'"
    using Cons.IH[of ?w2] by blast
  with s show ?case by simp
qed

lemma print_line_simps [simp]:
  "files (print_line s w) = files w" "calls (print_line s w) = calls w"
  "stdout (print_line s w) = stdout w @ [s]"
  by (simp_all add: print_line_def)

lemma loop_B_Done_calls:
  "loop_B os ns w = Done w' \<Longrightarrow> calls w' = calls w @ map (\<lambda>n. Save (path_B n)) ns"
proof (induction ns arbitrary: w)
  case Nil
  then show ?case by simp
next
  case (Cons n ns)
  then obtain w1 where s: "save os (icon_image_B n) (path_B n) (print_line (''Creating '' @ n) w) = Done w1"
    and l: "loop_B os ns (print_line (''Saved '' @ path_B n) w1) = Done w'"
    by (auto split: outcome.splits)
  from save_calls[of os "icon_image_B n" "path_B n" "print_line (''Creating '' @ n) w"] s
  have "calls w1 = calls w @ [Save (path_B n)]" by simp
  with Cons.IH[OF l] show ?case by (simp add: print_line_def)
qed

lemma loop_B_Done_stdout:
  "loop_B os ns w = Done w' \<Longrightarrow>
     stdout w' = stdout w @ concat (map (\<lambda>n. [''Creating '' @ n, ''Saved '' @ path_B n]) ns)"
proof (induction ns arbitrary: w)
  case Nil
  then show ?case by simp
next
  case (Cons n ns)
  then obtain w1 where s: "save os (icon_image_B n) (path_B n) (print_line (''Creating '' @ n) w) = Done w1"
    and l: "loop_B os ns (print_line (''Saved '' @ path_B n) w1) = Done w'"
    by (auto split: outcome.splits)
  from save_stdout[of os "icon_image_B n" "path_B n" "print_line (''Creating '' @ n) w"] s
  have "stdout w1 = stdout w @ [''Creating '' @ n]" by simp
  with Cons.IH[OF l] show ?case by (simp add: print_line_def)
qed

lemma loop_B_other:
  "p \<notin> path_B ` set ns \<Longrightarrow> files (world_of (loop_B os ns w)) p = files w p"
proof (induction ns arbitrary: w)
  case Nil
  then show ?case by simp
next
  case (Cons n ns)
  then have pn: "p \<noteq> path_B n" and pns: "p \<notin> path_B ` set ns" by auto
  have sv: "files (world_of (save os (icon_image_B n) (path_B n) (print_line (''Creating '' @ n) w))) p = files w p"
    using save_other[OF pn, of os "icon_image_B n" "print_line (''Creating '' @ n) w"] by simp
  show ?case
  proof (cases "save os (icon_image_B n) (path_B n) (print_line (''Creating '' @ n) w)")
    case (Done w1)
    with sv have "files w1 p = files w p" by simp
    with Cons.IH[OF pns, of "print_line (''Saved '' @ path_B n) w1"] Done
    show ?thesis by (simp add: print_line_def)
  next
    case (Raised e w1)
    with sv show ?thesis by simp
  qed
qed

lemma loop_B_Done_files:
  "loop_B os ns w = Done w' \<Longrightarrow> distinct (map path_B ns) \<Longrightarrow> n \<in> set ns \<Longrightarrow>
     files w' (path_B n) = Some (File (PNG (icon_image_B n)))"
proof (induction ns arbitrary: w)
  case Nil
  then show ?case by simp
next
  case (Cons m ns)
  then obtain w1 where s: "save os (icon_image_B m) (path_B m) (print_line (''Creating '' @ m) w) = Done w1"
    and l: "loop_B os ns (print_line (''Saved '' @ path_B m) w1) = Done w'"
    by (auto split: outcome.splits)
  from Cons.prems have d: "distinct (map path_B ns)" and fresh: "path_B m \<notin> path_B ` set ns"
    by auto
  show ?case
  proof (cases "n \<in> set ns")
    case True
    from Cons.IH[OF l d True] show ?thesis .
  next
    case False
    with Cons.prems have nm: "n = m" by simp
    from save_Done[OF s] have "files w1 (path_B m) = Some (File (PNG (icon_image_B m)))"
      by simp
    moreover from loop_B_other[OF fresh, of os "print_line (''Saved '' @ path_B m) w1"] l
    have "files w' (path_B m) = files w1 (path_B m)" by (simp add: print_line_def)
    ultimately show ?thesis using nm by simp
  qed
qed

lemma loop_B_Done_faults:
  "loop_B os ns w = Done w' \<Longrightarrow> n \<in> set ns \<Longrightarrow> write_fault os (path_B n) = None"
proof (induction ns arbitrary: w)
  case Nil
  then show ?case by simp
next
  case (Cons m ns)
  then obtain w1 where s: "save os (icon_image_B m) (path_B m) (print_line (''Creating '' @ m) w) = Done w1"
    and l: "loop_B os ns (print_line (''Saved '' @ path_B m) w1) = Done w'"
    by (auto split: outcome.splits)
  show ?case
  proof (cases "n = m")
    case True
    with save_Done[OF s] show ?thesis by simp
  next
    case False
    with Cons.prems have "n \<in> set ns" by simp
    from Cons.IH[OF l this] show ?thesis .
  qed
qed

lemma loop_B_Raised:
  "loop_B os ns w = Raised e w' \<Longrightarrow>
     \<exists>k wk. k < length ns \<and> loop_B os (take k ns) w = Done wk
       \<and> save os (icon_image_B (ns ! k)) (path_B (ns ! k))
            (print_line (''Creating '' @ ns ! k) wk) = Raised e w'"
proof (induction ns arbitrary: w)
  case Nil
  then show ?case by simp
next
  case (Cons n ns)
  show ?case
  proof (cases "save os (icon_image_B n) (path_B n) (print_line (''Creating '' @ n) w)")
    case (Raised e1 w1)
    with Cons.prems have "e1 = e" "w1 = w'" by simp_all
    with Raised have "0 < length (n # ns) \<and> loop_B os (take 0 (n # ns)) w = Done w
       \<and> save os (icon_image_B ((n # ns) ! 0)) (path_B ((n # ns) ! 0))
            (print_line (''Creating '' @ (n # ns) ! 0) w) = Raised e w'"
      by simp
    then show ?thesis by blast
  next
    case (Done w1)
    with Cons.prems
    have "loop_B os ns (print_line (''Saved '' @ path_B n) w1) = Raised e w'" by simp
    from Cons.IH[OF this] obtain k wk where k: "k < length ns"
      and lk: "loop_B os (take k ns) (print_line (''Saved '' @ path_B n) w1) = Done wk"
      and sk: "save os (icon_image_B (ns ! k)) (path_B (ns ! k))
            (print_line (''Creating '' @ ns ! k) wk) = Raised e w'"
      by blast
    have "Suc k < length (n # ns) \<and> loop_B os (take (Suc k) (n # ns)) w = Done wk
       \<and> save os (icon_image_B ((n # ns) ! Suc k)) (path_B ((n # ns) ! Suc k))
            (print_line (''Creating '' @ (n # ns) ! Suc k) wk) = Raised e w'"
      using k lk sk Done by simp
    then show ?thesis by blast
  qed
qed

lemma loop_B_rerun:
  "\<forall>n \<in> set ns. write_fault os (path_B n) = None
       \<and> files w (path_B n) = Some (File (PNG (icon_image_B n)))
       \<and> files w (dirname (path_B n)) = Some Dir \<Longrightarrow>
     \<exists>w'. loop_B os ns w = Done w' \<and> files w' = files w"
proof (induction ns arbitrary: w)
  case Nil
  then show ?case by simp
next
  case (Cons n ns)
  let ?w0 = "print_line (''Creating '' @ n) w"
  let ?w1 = "?w0\<lparr>calls := calls ?w0 @ [Save (path_B n)],
               files := (files ?w0)(path_B n \<mapsto> File (PNG (icon_image_B n)))\<rparr>"
  from Cons.prems have nf: "write_fault os (path_B n) = None"
    and here: "files w (path_B n) = Some (File (PNG (icon_image_B n)))"
    and dir: "files w (dirname (path_B n)) = Some Dir" by simp_all
  have s: "save os (icon_image_B n) (path_B n) (print_line (''Creating '' @ n) w) = Done ?w1"
    using nf here dir by (intro save_succeeds) simp_all
  have same: "files ?w1 = files w"
    using here by (simp add: fun_upd_idem)
  let ?w2 = "print_line (''Saved '' @ path_B n) ?w1"
  have same2: "files ?w2 = files w"
    using same by (simp add: print_line_def)
  have "\<forall>m \<in> set ns. write_fault os (path_B m) = None
       \<and> files ?w2 (path_B m) = Some (File (PNG (icon_image_B m)))
       \<and> files ?w2 (dirname (path_B m)) = Some Dir"
    unfolding same2 using Cons.prems by simp
  from Cons.IH[OF this] obtain w' where "loop_B os ns ?w2 = Done w'" "files w' = files ?w2"
    by blast
  with s same2 show ?case by simp
qed

lemma loop_B_succeeds:
  "\<forall>n \<in> set ns. write_fault os (path_B n) = None \<and> files w (path_B n) \<noteq> Some Dir
       \<and> dirname (path_B n) = d \<Longrightarrow>
   files w d = Some Dir \<Longrightarrow> d \<notin> path_B ` set ns \<Longrightarrow> distinct (map path_B ns) \<Longrightarrow>
     \<exists>w'. loop_B os ns w = Done w'"
proof (induction ns arbitrary: w)
  case Nil
  then show ?case by simp
next
  case (Cons n ns)
  let ?w0 = "print_line (''Creating '' @ n) w"
  let ?w1 = "?w0\<lparr>calls := calls ?w0 @ [Save (path_B n)],
               files := (files ?w0)(path_B n \<mapsto> File (PNG (icon_image_B n)))\<rparr>"
  let ?w2 = "print_line (''Saved '' @ path_B n) ?w1"
  from Cons.prems have nf: "write_fault os (path_B n) = None"
    and here: "files w (path_B n) \<noteq> Some Dir"
    and dn: "dirname (path_B n) = d" and dd: "d \<noteq> path_B n"
    and fresh: "path_B n \<notin> path_B ` set ns" by auto
  have s: "save os (icon_image_B n) (path_B n) (print_line (''Creating '' @ n) w) = Done ?w1"
    using nf here dn Cons.prems(2) by (intro save_succeeds) simp_all
  have f2: "files ?w2 = (files w)(path_B n \<mapsto> File (PNG (icon_image_B n)))"
    by (simp add: print_line_def)
  have "\<forall>m \<in> set ns. write_fault os (path_B m) = None \<and> files ?w2 (path_B m) \<noteq> Some Dir
       \<and> dirname (path_B m) = d"
    unfolding f2 using Cons.prems(1) fresh by auto
  moreover have "files ?w2 d = Some Dir"
    unfolding f2 using Cons.prems(2) dd by simp
  moreover have "d \<notin> path_B ` set ns" "distinct (map path_B ns)"
    using Cons.prems by auto
  ultimately obtain w' where "loop_B os ns ?w2 = Done w'"
    using Cons.IH[of ?w2] by blast
  with s show ?case by simp
qed

section \<open>The two scripts as a whole\<close>

lemma create_icons_Done:
  "create_icons font os w = Done w' \<Longrightarrow>
     \<exists>w1 w2. makedirs os ''assets/product_icons'' w = Done w1
       \<and> loop_A font os icons w1 = Done w2
       \<and> w' = print_line ''All product icons created successfully!'' w2"
  by (auto simp add: create_icons_def split: outcome.splits)

lemma create_icons_Raised:
  "create_icons font os w = Raised e w' \<Longrightarrow>
     makedirs os ''assets/product_icons'' w = Raised e w'
     \<or> (\<exists>w1. makedirs os ''assets/product_icons'' w = Done w1
           \<and> loop_A font os icons w1 = Raised e w')"
  by (auto simp add: create_icons_def split: outcome.splits)

lemma create_product_icons_Done:
  "create_product_icons os w = Done w' \<Longrightarrow>
     \<exists>w1 w2. makedirs os ''assets/product_icons'' w = Done w1
       \<and> loop_B os icons w1 = Done w2
       \<and> w' = print_line ''All product icons created successfully!'' w2"
  by (auto simp add: create_product_icons_def split: outcome.splits)

lemma create_product_icons_Raised:
  "create_product_icons os w = Raised e w' \<Longrightarrow>
     makedirs os ''assets/product_icons'' w = Raised e w'
     \<or> (\<exists>w1. makedirs os ''assets/product_icons'' w = Done w1
           \<and> loop_B os icons w1 = Raised e w')"
  by (auto simp add: create_product_icons_def split: outcome.splits)

lemma target_in_dirs: "''assets/product_icons'' \<in> set (dirs_of ''assets/product_icons'')"
  by (simp add: dirs_of_target)

lemma path_A_not_dir: "n \<in> set icons \<Longrightarrow> path_A n \<notin> set (dirs_of ''assets/product_icons'')"
  using paths_A_not_dirs by (simp add: list_all_iff)

lemma path_B_not_dir: "n \<in> set icons \<Longrightarrow> path_B n \<notin> set (dirs_of ''assets/product_icons'')"
  using paths_B_not_dirs by (simp add: list_all_iff)

lemma dirname_path_A: "n \<in> set icons \<Longrightarrow> dirname (path_A n) = ''assets/product_icons''"
  using dirname_paths_A by (simp add: list_all_iff)

lemma dirname_path_B: "n \<in> set icons \<Longrightarrow> dirname (path_B n) = ''assets/product_icons''"
  using dirname_paths_B by (simp add: list_all_iff)

lemma dirs_not_paths_A: "p \<in> set (dirs_of ''assets/product_icons'') \<Longrightarrow> p \<notin> path_A ` set icons"
  using path_A_not_dir by auto

lemma dirs_not_paths_B: "p \<in> set (dirs_of ''assets/product_icons'') \<Longrightarrow> p \<notin> path_B ` set icons"
  using path_B_not_dir by auto

text \<open>
  A run completes when nothing is in the way: the operating system refuses
  neither the directories nor the four files, no file sits where a directory
  is needed and no directory where a file is to be written.
\<close>

lemma create_icons_succeeds:
  assumes dirs: "\<forall>p \<in> set (dirs_of ''assets/product_icons'').
      mkdir_fault os p = None \<and> (files w p = None \<or> files w p = Some Dir)"
    and fs: "\<forall>n \<in> set icons. write_fault os (path_A n) = None \<and> files w (path_A n) \<noteq> Some Dir"
  shows "\<exists>w'. create_icons font os w = Done w'"
proof -
  let ?w0 = "w\<lparr>calls := calls w @ [Makedirs ''assets/product_icons'']\<rparr>"
  have "\<forall>p \<in> set (dirs_of ''assets/product_icons'').
      mkdir_fault os p = None \<and> (files ?w0 p = None \<or> files ?w0 p = Some Dir)"
    using dirs by simp
  from makedirs_each_succeeds[OF this]
  obtain w1 where m: "makedirs os ''assets/product_icons'' w = Done w1"
    unfolding makedirs_def by blast
  have d: "files w1 ''assets/product_icons'' = Some Dir"
    using makedirs_Done[OF m target_in_dirs] .
  have keep: "files w1 (path_A n) = files w (path_A n)" if "n \<in> set icons" for n
    using makedirs_keeps[of w "path_A n" "''assets/product_icons''" os] path_A_not_dir[OF that] m
    by simp
  have "\<forall>n \<in> set icons. write_fault os (path_A n) = None \<and> files w1 (path_A n) \<noteq> Some Dir
       \<and> dirname (path_A n) = ''assets/product_icons''"
    using fs keep dirname_path_A by simp
  from loop_A_succeeds[OF this d dirs_not_paths_A[OF target_in_dirs] distinct_paths_A]
  obtain w2 where "loop_A font os icons w1 = Done w2" by blast
  with m show ?thesis by (simp add: create_icons_def)
qed

lemma create_product_icons_succeeds:
  assumes dirs: "\<forall>p \<in> set (dirs_of ''assets/product_icons'').
      mkdir_fault os p = None \<and> (files w p = None \<or> files w p = Some Dir)"
    and fs: "\<forall>n \<in> set icons. write_fault os (path_B n) = None \<and> files w (path_B n) \<noteq> Some Dir"
  shows "\<exists>w'. create_product_icons os w = Done w'"
proof -
  let ?w0 = "w\<lparr>calls := calls w @ [Makedirs ''assets/product_icons'']\<rparr>"
  have "\<forall>p \<in> set (dirs_of ''assets/product_icons'').
      mkdir_fault os p = None \<and> (files ?w0 p = None \<or> files ?w0 p = Some Dir)"
    using dirs by simp
  from makedirs_each_succeeds[OF this]
  obtain w1 where m: "makedirs os ''assets/product_icons'' w = Done w1"
    unfolding makedirs_def by blast
  have d: "files w1 ''assets/product_icons'' = Some Dir"
    using makedirs_Done[OF m target_in_dirs] .
  have keep: "files w1 (path_B n) = files w (path_B n)" if "n \<in> set icons" for n
    using makedirs_keeps[of w "path_B n" "''assets/product_icons''" os] path_B_not_dir[OF that] m
    by simp
  have "\<forall>n \<in> set icons. write_fault os (path_B n) = None \<and> files w1 (path_B n) \<noteq> Some Dir
       \<and> dirname (path_B n) = ''assets/product_icons''"
    using fs keep dirname_path_B by simp
  from loop_B_succeeds[OF this d dirs_not_paths_B[OF target_in_dirs] distinct_paths_B]
  obtain w2 where "loop_B os icons w1 = Done w2" by blast
  with m show ?thesis by (simp add: create_product_icons_def)
qed

lemma fresh_run_A: "\<exists>w'. create_icons font no_faults empty_world = Done w'"
  by (rule create_icons_succeeds) (simp_all add: no_faults_def empty_world_def)

lemma fresh_run_B: "\<exists>w'. create_product_icons no_faults empty_world = Done w'"
  by (rule create_product_icons_succeeds) (simp_all add: no_faults_def empty_world_def)

text \<open>What a completed run leaves on disk.\<close>

lemma create_icons_files:
  assumes run: "create_icons font os w = Done w'"
  shows "n \<in> set icons \<Longrightarrow> files w' (path_A n) = Some (File (PNG (icon_image_A font n)))"
    and "p \<in> set (dirs_of ''assets/product_icons'') \<Longrightarrow> files w' p = Some Dir"
    and "p \<notin> path_A ` set icons \<Longrightarrow> p \<notin> set (dirs_of ''assets/product_icons'') \<Longrightarrow>
           files w' p = files w p"
proof -
  from create_icons_Done[OF run] obtain w1 w2
    where m: "makedirs os ''assets/product_icons'' w = Done w1"
      and l: "loop_A font os icons w1 = Done w2"
      and w': "w' = print_line ''All product icons created successfully!'' w2" by blast
  show "files w' (path_A n) = Some (File (PNG (icon_image_A font n)))" if "n \<in> set icons"
    using loop_A_Done_files[OF l distinct_paths_A that] w' by simp
  show "files w' p = Some Dir" if "p \<in> set (dirs_of ''assets/product_icons'')"
    using loop_A_other[OF dirs_not_paths_A[OF that], of font os w1] l makedirs_Done[OF m that] w'
    by simp
  show "files w' p = files w p"
    if "p \<notin> path_A ` set icons" "p \<notin> set (dirs_of ''assets/product_icons'')"
    using loop_A_other[OF that(1), of font os w1] l
      makedirs_keeps[of w p "''assets/product_icons''" os] that(2) m w'
    by simp
qed

lemma create_product_icons_files:
  assumes run: "create_product_icons os w = Done w'"
  shows "n \<in> set icons \<Longrightarrow> files w' (path_B n) = Some (File (PNG (icon_image_B n)))"
    and "p \<in> set (dirs_of ''assets/product_icons'') \<Longrightarrow> files w' p = Some Dir"
    and "p \<notin> path_B ` set icons \<Longrightarrow> p \<notin> set (dirs_of ''assets/product_icons'') \<Longrightarrow>
           files w' p = files w p"
proof -
  from create_product_icons_Done[OF run] obtain w1 w2
    where m: "makedirs os ''assets/product_icons'' w = Done w1"
      and l: "loop_B os icons w1 = Done w2"
      and w': "w' = print_line ''All product icons created successfully!'' w2" by blast
  show "files w' (path_B n) = Some (File (PNG (icon_image_B n)))" if "n \<in> set icons"
    using loop_B_Done_files[OF l distinct_paths_B that] w' by simp
  show "files w' p = Some Dir" if "p \<in> set (dirs_of ''assets/product_icons'')"
    using loop_B_other[OF dirs_not_paths_B[OF that], of os w1] l makedirs_Done[OF m that] w'
    by simp
  show "files w' p = files w p"
    if "p \<notin> path_B ` set icons" "p \<notin> set (dirs_of ''assets/product_icons'')"
    using loop_B_other[OF that(1), of os w1] l
      makedirs_keeps[of w p "''assets/product_icons''" os] that(2) m w'
    by simp
qed

section \<open>The claims on a run\<close>

text \<open>
  C4. After a complete run of either script, each of the four paths
  \<^verbatim>\<open>assets/product_icons/<name>.png\<close> holds the PNG of that name's image, an
  image of 256 by 256 pixels; the four paths are distinct; and apart from
  them and the two directories the script makes sure of, the file system is
  as the run found it.
\<close>

theorem complete_run_files:
  "(create_icons font os w = Done w' \<longrightarrow>
      list_all (\<lambda>n. files w' (path_A n) = Some (File (PNG (icon_image_A font n)))
                  \<and> im_size (icon_image_A font n) = (256, 256)) icons
      \<and> (\<forall>p. p \<notin> set (map path_A icons) \<and> p \<notin> set [''assets'', ''assets/product_icons'']
            \<longrightarrow> files w' p = files w p))
   \<and> (create_product_icons os w = Done w' \<longrightarrow>
      list_all (\<lambda>n. files w' (path_B n) = Some (File (PNG (icon_image_B n)))
                  \<and> im_size (icon_image_B n) = (256, 256)) icons
      \<and> (\<forall>p. p \<notin> set (map path_B icons) \<and> p \<notin> set [''assets'', ''assets/product_icons'']
            \<longrightarrow> files w' p = files w p))
   \<and> map path_A icons =
       [''assets/product_icons/hobo_cape_icon.png'', ''assets/product_icons/cool_shades_icon.png'',
        ''assets/product_icons/cardboard_armor_icon.png'', ''assets/product_icons/extra_life_icon.png'']
   \<and> map path_B icons = map path_A icons
   \<and> distinct (map path_A icons)"
proof -
  have a: "list_all (\<lambda>n. files w' (path_A n) = Some (File (PNG (icon_image_A font n)))
                  \<and> im_size (icon_image_A font n) = (256, 256)) icons
      \<and> (\<forall>p. p \<notin> set (map path_A icons) \<and> p \<notin> set [''assets'', ''assets/product_icons'']
            \<longrightarrow> files w' p = files w p)"
    if run: "create_icons font os w = Done w'"
    using create_icons_files(1)[OF run] create_icons_files(3)[OF run]
    by (simp add: list_all_iff size_icon_image_A dirs_of_target)
  have b: "list_all (\<lambda>n. files w' (path_B n) = Some (File (PNG (icon_image_B n)))
                  \<and> im_size (icon_image_B n) = (256, 256)) icons
      \<and> (\<forall>p. p \<notin> set (map path_B icons) \<and> p \<notin> set [''assets'', ''assets/product_icons'']
            \<longrightarrow> files w' p = files w p)"
    if run: "create_product_icons os w = Done w'"
    using create_product_icons_files(1)[OF run] create_product_icons_files(3)[OF run]
    by (simp add: list_all_iff size_icon_image_B dirs_of_target)
  have c: "map path_B icons = map path_A icons"
    by (simp only: paths_A paths_B)
  from a b c paths_A distinct_paths_A show ?thesis by blast
qed

theorem complete_run_files_witness:
  "\<exists>w'. create_icons blank_font no_faults empty_world = Done w'
     \<and> files w' ''assets/product_icons/hobo_cape_icon.png''
         = Some (File (PNG (icon_image_A blank_font ''hobo_cape_icon'')))
     \<and> files w' ''assets/product_icons/extra_life_icon.png''
         = Some (File (PNG (icon_image_A blank_font ''extra_life_icon'')))
     \<and> files w' ''assets/other.png'' = None"
proof -
  from fresh_run_A obtain w' where run: "create_icons blank_font no_faults empty_world = Done w'"
    by blast
  from complete_run_files[of blank_font no_faults empty_world w'] run
  have l: "list_all (\<lambda>n. files w' (path_A n) = Some (File (PNG (icon_image_A blank_font n)))
                  \<and> im_size (icon_image_A blank_font n) = (256, 256)) icons"
    and o: "\<forall>p. p \<notin> set (map path_A icons) \<and> p \<notin> set [''assets'', ''assets/product_icons'']
            \<longrightarrow> files w' p = files empty_world p"
    by blast+
  have p1: "path_A ''hobo_cape_icon'' = ''assets/product_icons/hobo_cape_icon.png''"
    and p4: "path_A ''extra_life_icon'' = ''assets/product_icons/extra_life_icon.png''"
    by code_simp+
  from l have "files w' (path_A ''hobo_cape_icon'')
         = Some (File (PNG (icon_image_A blank_font ''hobo_cape_icon'')))"
    and "files w' (path_A ''extra_life_icon'')
         = Some (File (PNG (icon_image_A blank_font ''extra_life_icon'')))"
    by (simp_all add: icons_def)
  moreover from o have "files w' ''assets/other.png'' = files empty_world ''assets/other.png''"
    by (simp add: paths_A)
  ultimately show ?thesis using run p1 p4 by (auto simp add: empty_world_def)
qed

text \<open>A second run, started where a completed one ended.\<close>

lemma create_icons_rerun:
  assumes run: "create_icons font os w = Done w1"
  shows "\<exists>w2. create_icons font os w1 = Done w2
           \<and> calls w2 = calls w1 @ Makedirs ''assets/product_icons''
                 # map (\<lambda>n. Save (path_A n)) icons
           \<and> files w2 = files w1"
proof -
  let ?w = "w1\<lparr>calls := calls w1 @ [Makedirs ''assets/product_icons'']\<rparr>"
  from create_icons_Done[OF run] obtain v1 v2
    where l: "loop_A font os icons v1 = Done v2" by blast
  have "\<forall>p \<in> set (dirs_of ''assets/product_icons''). files w1 p = Some Dir"
    using create_icons_files(2)[OF run] by blast
  from makedirs_present[OF this]
  have m: "makedirs os ''assets/product_icons'' w1 = Done ?w" .
  have "\<forall>n \<in> set icons. write_fault os (path_A n) = None
       \<and> files ?w (path_A n) = Some (File (PNG (icon_image_A font n)))
       \<and> files ?w (dirname (path_A n)) = Some Dir"
    using loop_A_Done_faults[OF l] create_icons_files(1)[OF run]
      create_icons_files(2)[OF run target_in_dirs] dirname_path_A
    by simp
  from loop_A_rerun[OF this] obtain w' where l2: "loop_A font os icons ?w = Done w'"
    and f: "files w' = files ?w" by blast
  from loop_A_Done_calls[OF l2]
  have "calls w' = calls w1 @ Makedirs ''assets/product_icons'' # map (\<lambda>n. Save (path_A n)) icons"
    by simp
  with m l2 f show ?thesis by (simp add: create_icons_def)
qed

lemma create_product_icons_rerun:
  assumes run: "create_product_icons os w = Done w1"
  shows "\<exists>w2. create_product_icons os w1 = Done w2
           \<and> calls w2 = calls w1 @ Makedirs ''assets/product_icons''
                 # map (\<lambda>n. Save (path_B n)) icons
           \<and> files w2 = files w1"
proof -
  let ?w = "w1\<lparr>calls := calls w1 @ [Makedirs ''assets/product_icons'']\<rparr>"
  from create_product_icons_Done[OF run] obtain v1 v2
    where l: "loop_B os icons v1 = Done v2" by blast
  have "\<forall>p \<in> set (dirs_of ''assets/product_icons''). files w1 p = Some Dir"
    using create_product_icons_files(2)[OF run] by blast
  from makedirs_present[OF this]
  have m: "makedirs os ''assets/product_icons'' w1 = Done ?w" .
  have "\<forall>n \<in> set icons. write_fault os (path_B n) = None
       \<and> files ?w (path_B n) = Some (File (PNG (icon_image_B n)))
       \<and> files ?w (dirname (path_B n)) = Some Dir"
    using loop_B_Done_faults[OF l] create_product_icons_files(1)[OF run]
      create_product_icons_files(2)[OF run target_in_dirs] dirname_path_B
    by simp
  from loop_B_rerun[OF this] obtain w' where l2: "loop_B os icons ?w = Done w'"
    and f: "files w' = files ?w" by blast
  from loop_B_Done_calls[OF l2]
  have "calls w' = calls w1 @ Makedirs ''assets/product_icons'' # map (\<lambda>n. Save (path_B n)) icons"
    by simp
  with m l2 f show ?thesis by (simp add: create_product_icons_def)
qed

text \<open>
  C6. A run completes whenever the operating system refuses nothing and
  neither a file sits where a directory is needed nor a directory where a
  file is to be written: files already at the four paths do not stop it.
  After a complete run each of the four paths holds the PNG of its name's
  image, whatever was there before, so two complete runs, from whatever
  starts, leave the same four files with the same pixels. A second run
  started where a complete run ended completes too, saves every one of the
  four paths again, in order, and leaves every file and directory exactly
  as it found them. Each name has one path,
  \<^verbatim>\<open>assets/product_icons/<name>.png\<close>, and distinct names have distinct
  paths.
\<close>

theorem rerun_same_files:
  "(list_all (\<lambda>p. mkdir_fault os p = None \<and> (files w p = None \<or> files w p = Some Dir))
        [''assets'', ''assets/product_icons'']
      \<and> list_all (\<lambda>n. write_fault os (path_A n) = None \<and> files w (path_A n) \<noteq> Some Dir) icons
      \<longrightarrow> (\<exists>w1. create_icons font os w = Done w1))
   \<and> (create_icons font os w = Done w1 \<longrightarrow>
      list_all (\<lambda>n. files w1 (path_A n) = Some (File (PNG (icon_image_A font n)))) icons
      \<and> (\<exists>w2. create_icons font os w1 = Done w2
            \<and> calls w2 = calls w1 @ Makedirs ''assets/product_icons''
                  # map (\<lambda>n. Save (path_A n)) icons
            \<and> files w2 = files w1))
   \<and> (create_icons font os w = Done w1 \<and> create_icons font os' v = Done v1 \<longrightarrow>
      list_all (\<lambda>n. files w1 (path_A n) = files v1 (path_A n)) icons)
   \<and> (list_all (\<lambda>p. mkdir_fault os p = None \<and> (files w p = None \<or> files w p = Some Dir))
        [''assets'', ''assets/product_icons'']
      \<and> list_all (\<lambda>n. write_fault os (path_B n) = None \<and> files w (path_B n) \<noteq> Some Dir) icons
      \<longrightarrow> (\<exists>w1. create_product_icons os w = Done w1))
   \<and> (create_product_icons os w = Done w1 \<longrightarrow>
      list_all (\<lambda>n. files w1 (path_B n) = Some (File (PNG (icon_image_B n)))) icons
      \<and> (\<exists>w2. create_product_icons os w1 = Done w2
            \<and> calls w2 = calls w1 @ Makedirs ''assets/product_icons''
                  # map (\<lambda>n. Save (path_B n)) icons
            \<and> files w2 = files w1))
   \<and> (create_product_icons os w = Done w1 \<and> create_product_icons os' v = Done v1 \<longrightarrow>
      list_all (\<lambda>n. files w1 (path_B n) = files v1 (path_B n)) icons)
   \<and> list_all (\<lambda>n. path_A n = ''assets/product_icons/'' @ n @ ''.png'') icons
   \<and> path_B n = ''assets/product_icons/'' @ n @ ''.png''
   \<and> (path_B n = path_B m \<longleftrightarrow> n = m)
   \<and> distinct (map path_A icons)"
proof -
  have a0: "\<exists>w1. create_icons font os w = Done w1"
    if "list_all (\<lambda>p. mkdir_fault os p = None \<and> (files w p = None \<or> files w p = Some Dir))
          [''assets'', ''assets/product_icons'']"
      and "list_all (\<lambda>n. write_fault os (path_A n) = None \<and> files w (path_A n) \<noteq> Some Dir) icons"
    using that by (intro create_icons_succeeds) (simp_all add: dirs_of_target list_all_iff)
  have a1: "list_all (\<lambda>n. files w1 (path_A n) = Some (File (PNG (icon_image_A font n)))) icons"
    if "create_icons font os w = Done w1"
    using create_icons_files(1)[OF that] by (simp add: list_all_iff)
  have a2: "list_all (\<lambda>n. files w1 (path_A n) = files v1 (path_A n)) icons"
    if "create_icons font os w = Done w1" "create_icons font os' v = Done v1"
    using create_icons_files(1)[OF that(1)] create_icons_files(1)[OF that(2)]
    by (simp add: list_all_iff)
  have b0: "\<exists>w1. create_product_icons os w = Done w1"
    if "list_all (\<lambda>p. mkdir_fault os p = None \<and> (files w p = None \<or> files w p = Some Dir))
          [''assets'', ''assets/product_icons'']"
      and "list_all (\<lambda>n. write_fault os (path_B n) = None \<and> files w (path_B n) \<noteq> Some Dir) icons"
    using that by (intro create_product_icons_succeeds) (simp_all add: dirs_of_target list_all_iff)
  have b1: "list_all (\<lambda>n. files w1 (path_B n) = Some (File (PNG (icon_image_B n)))) icons"
    if "create_product_icons os w = Done w1"
    using create_product_icons_files(1)[OF that] by (simp add: list_all_iff)
  have b2: "list_all (\<lambda>n. files w1 (path_B n) = files v1 (path_B n)) icons"
    if "create_product_icons os w = Done w1" "create_product_icons os' v = Done v1"
    using create_product_icons_files(1)[OF that(1)] create_product_icons_files(1)[OF that(2)]
    by (simp add: list_all_iff)
  have p1: "list_all (\<lambda>n. path_A n = ''assets/product_icons/'' @ n @ ''.png'') icons"
    by code_simp
  have p2: "path_B n = ''assets/product_icons/'' @ n @ ''.png''"
    by (simp add: path_B_def)
  have p3: "path_B n = path_B m \<longleftrightarrow> n = m"
    by (simp add: path_B_def)
  from a0 a1 a2 b0 b1 b2 p1 p2 p3 distinct_paths_A
    create_icons_rerun[of font os w w1] create_product_icons_rerun[of os w w1]
  show ?thesis by blast
qed

text \<open>
  On the disk an earlier run has been on, the script completes, the cut file
  and the other script's image are replaced by the icons' own images, and a
  second run saves all four again and changes nothing.
\<close>

theorem rerun_same_files_witness:
  "files stale_world ''assets/product_icons/hobo_cape_icon.png'' = Some (File Partial)
   \<and> (\<exists>w1 w2. create_icons blank_font no_faults stale_world = Done w1
        \<and> files w1 ''assets/product_icons/hobo_cape_icon.png''
             = Some (File (PNG (icon_image_A blank_font ''hobo_cape_icon'')))
        \<and> files w1 ''assets/product_icons/cool_shades_icon.png''
             = Some (File (PNG (icon_image_A blank_font ''cool_shades_icon'')))
        \<and> create_icons blank_font no_faults w1 = Done w2
        \<and> calls w2 = calls w1 @
             [Makedirs ''assets/product_icons'',
              Save ''assets/product_icons/hobo_cape_icon.png'',
              Save ''assets/product_icons/cool_shades_icon.png'',
              Save ''assets/product_icons/cardboard_armor_icon.png'',
              Save ''assets/product_icons/extra_life_icon.png'']
        \<and> files w2 = files w1)"
proof -
  have old: "files stale_world ''assets/product_icons/hobo_cape_icon.png'' = Some (File Partial)"
    by (simp add: stale_world_def)
  have h1: "list_all (\<lambda>p. mkdir_fault no_faults p = None
                \<and> (files stale_world p = None \<or> files stale_world p = Some Dir))
        [''assets'', ''assets/product_icons'']"
    by (simp add: stale_world_def no_faults_def)
  have "list_all (\<lambda>p. write_fault no_faults p = None \<and> files stale_world p \<noteq> Some Dir)
          (map path_A icons)"
    unfolding paths_A by (simp add: stale_world_def no_faults_def)
  then have h2: "list_all (\<lambda>n. write_fault no_faults (path_A n) = None
                \<and> files stale_world (path_A n) \<noteq> Some Dir) icons"
    by (simp add: list.pred_map comp_def)
  from rerun_same_files[of no_faults stale_world blank_font] h1 h2
  obtain w1 where run: "create_icons blank_font no_faults stale_world = Done w1"
    by blast
  from rerun_same_files[of no_faults stale_world blank_font w1] run
  obtain w2 where l: "list_all (\<lambda>n. files w1 (path_A n)
                        = Some (File (PNG (icon_image_A blank_font n)))) icons"
    and run2: "create_icons blank_font no_faults w1 = Done w2"
    and c: "calls w2 = calls w1 @ Makedirs ''assets/product_icons''
                  # map (\<lambda>n. Save (path_A n)) icons"
    and f: "files w2 = files w1"
    by blast
  have p: "path_A ''hobo_cape_icon'' = ''assets/product_icons/hobo_cape_icon.png''"
    "path_A ''cool_shades_icon'' = ''assets/product_icons/cool_shades_icon.png''"
    by code_simp+
  from l have f1: "files w1 (path_A ''hobo_cape_icon'')
         = Some (File (PNG (icon_image_A blank_font ''hobo_cape_icon'')))"
    and f2: "files w1 (path_A ''cool_shades_icon'')
         = Some (File (PNG (icon_image_A blank_font ''cool_shades_icon'')))"
    by (simp_all add: icons_def)
  from c have c': "calls w2 = calls w1 @ Makedirs ''assets/product_icons''
                  # map Save (map path_A icons)"
    by (simp add: comp_def)
  show ?thesis
    using old run run2 f f1 f2 c' unfolding paths_A p by auto
qed

text \<open>Where a loop stops when a save raises, and what is there by then.\<close>

lemma loop_A_Raised_state:
  assumes run: "loop_A font os ns w = Raised e w'" and dist: "distinct (map path_A ns)"
  shows "\<exists>k wk. k < length ns \<and> loop_A font os (take k ns) w = Done wk
       \<and> save os (icon_image_A font (ns ! k)) (path_A (ns ! k)) wk = Raised e w'
       \<and> calls w' = calls w @ map (\<lambda>n. Save (path_A n)) (take (Suc k) ns)
       \<and> (\<forall>j<k. files w' (path_A (ns ! j)) = Some (File (PNG (icon_image_A font (ns ! j)))))"
proof -
  from loop_A_Raised[OF run] obtain k wk where k: "k < length ns"
    and lk: "loop_A font os (take k ns) w = Done wk"
    and sk: "save os (icon_image_A font (ns ! k)) (path_A (ns ! k)) wk = Raised e w'"
    by blast
  have c1: "calls wk = calls w @ map (\<lambda>n. Save (path_A n)) (take k ns)"
    using lk by (rule loop_A_Done_calls)
  have "calls w' = calls wk @ [Save (path_A (ns ! k))]"
    using save_calls[of os "icon_image_A font (ns ! k)" "path_A (ns ! k)" wk] sk by simp
  with c1 k have c: "calls w' = calls w @ map (\<lambda>n. Save (path_A n)) (take (Suc k) ns)"
    by (simp add: take_Suc_conv_app_nth)
  have f: "files w' (path_A (ns ! j)) = Some (File (PNG (icon_image_A font (ns ! j))))"
    if j: "j < k" for j
  proof -
    have mem: "ns ! j \<in> set (take k ns)"
      using j k by (metis in_set_conv_nth length_take min.absorb2 less_imp_le nth_take)
    have dk: "distinct (map path_A (take k ns))"
      using dist by (simp add: take_map[symmetric] distinct_take)
    have before: "files wk (path_A (ns ! j)) = Some (File (PNG (icon_image_A font (ns ! j))))"
      using loop_A_Done_files[OF lk dk mem] .
    have "map path_A ns ! j \<noteq> map path_A ns ! k"
      using dist j k by (simp add: nth_eq_iff_index_eq del: nth_map)
    with j k have ne: "path_A (ns ! j) \<noteq> path_A (ns ! k)" by simp
    from save_other[OF ne, of os "icon_image_A font (ns ! k)" wk] sk before
    show ?thesis by simp
  qed
  from k lk sk c f show ?thesis by blast
qed

lemma loop_B_Raised_state:
  assumes run: "loop_B os ns w = Raised e w'" and dist: "distinct (map path_B ns)"
  shows "\<exists>k wk. k < length ns \<and> loop_B os (take k ns) w = Done wk
       \<and> save os (icon_image_B (ns ! k)) (path_B (ns ! k))
            (print_line (''Creating '' @ ns ! k) wk) = Raised e w'
       \<and> calls w' = calls w @ map (\<lambda>n. Save (path_B n)) (take (Suc k) ns)
       \<and> (\<forall>j<k. files w' (path_B (ns ! j)) = Some (File (PNG (icon_image_B (ns ! j)))))"
proof -
  from loop_B_Raised[OF run] obtain k wk where k: "k < length ns"
    and lk: "loop_B os (take k ns) w = Done wk"
    and sk: "save os (icon_image_B (ns ! k)) (path_B (ns ! k))
            (print_line (''Creating '' @ ns ! k) wk) = Raised e w'"
    by blast
  have c1: "calls wk = calls w @ map (\<lambda>n. Save (path_B n)) (take k ns)"
    using lk by (rule loop_B_Done_calls)
  have "calls w' = calls wk @ [Save (path_B (ns ! k))]"
    using save_calls[of os "icon_image_B (ns ! k)" "path_B (ns ! k)"
        "print_line (''Creating '' @ ns ! k) wk"] sk by simp
  with c1 k have c: "calls w' = calls w @ map (\<lambda>n. Save (path_B n)) (take (Suc k) ns)"
    by (simp add: take_Suc_conv_app_nth)
  have f: "files w' (path_B (ns ! j)) = Some (File (PNG (icon_image_B (ns ! j))))"
    if j: "j < k" for j
  proof -
    have mem: "ns ! j \<in> set (take k ns)"
      using j k by (metis in_set_conv_nth length_take min.absorb2 less_imp_le nth_take)
    have dk: "distinct (map path_B (take k ns))"
      using dist by (simp add: take_map[symmetric] distinct_take)
    have before: "files wk (path_B (ns ! j)) = Some (File (PNG (icon_image_B (ns ! j))))"
      using loop_B_Done_files[OF lk dk mem] .
    have "map path_B ns ! j \<noteq> map path_B ns ! k"
      using dist j k by (simp add: nth_eq_iff_index_eq del: nth_map)
    with j k have ne: "path_B (ns ! j) \<noteq> path_B (ns ! k)" by simp
    from save_other[OF ne, of os "icon_image_B (ns ! k)" "print_line (''Creating '' @ ns ! k) wk"]
      sk before
    show ?thesis by simp
  qed
  from k lk sk c f show ?thesis by blast
qed

text \<open>
  C7. The calls a script issues on the file system, in order: the directory
  is made sure of first and once, then the icons are saved one after the
  other in the order of the list. A run that raises has issued a first part
  of that sequence and nothing else. A complete run has printed its progress
  lines in the same order.
\<close>

theorem calls_in_list_order:
  "(create_icons font os w = Done w' \<longrightarrow>
      calls w' = calls w @ Makedirs ''assets/product_icons'' # map (\<lambda>n. Save (path_A n)) icons
      \<and> stdout w' = stdout w @ map (\<lambda>n. ''Created '' @ path_A n) icons
            @ [''All product icons created successfully!''])
   \<and> (create_icons font os w = Raised e w' \<longrightarrow>
      (\<exists>k \<le> length icons. calls w' =
         calls w @ Makedirs ''assets/product_icons'' # map (\<lambda>n. Save (path_A n)) (take k icons)))
   \<and> (create_product_icons os w = Done w' \<longrightarrow>
      calls w' = calls w @ Makedirs ''assets/product_icons'' # map (\<lambda>n. Save (path_B n)) icons
      \<and> stdout w' = stdout w
            @ concat (map (\<lambda>n. [''Creating '' @ n, ''Saved '' @ path_B n]) icons)
            @ [''All product icons created successfully!''])
   \<and> (create_product_icons os w = Raised e w' \<longrightarrow>
      (\<exists>k \<le> length icons. calls w' =
         calls w @ Makedirs ''assets/product_icons'' # map (\<lambda>n. Save (path_B n)) (take k icons)))
   \<and> icons = [''hobo_cape_icon'', ''cool_shades_icon'', ''cardboard_armor_icon'', ''extra_life_icon'']"
proof -
  have a: "calls w' = calls w @ Makedirs ''assets/product_icons'' # map (\<lambda>n. Save (path_A n)) icons
      \<and> stdout w' = stdout w @ map (\<lambda>n. ''Created '' @ path_A n) icons
            @ [''All product icons created successfully!'']"
    if run: "create_icons font os w = Done w'"
  proof -
    from create_icons_Done[OF run] obtain w1 w2
      where m: "makedirs os ''assets/product_icons'' w = Done w1"
        and l: "loop_A font os icons w1 = Done w2"
        and w': "w' = print_line ''All product icons created successfully!'' w2" by blast
    from makedirs_calls[of os "''assets/product_icons''" w] m
    have c1: "calls w1 = calls w @ [Makedirs ''assets/product_icons'']" by simp
    from makedirs_stdout[of os "''assets/product_icons''" w] m
    have s1: "stdout w1 = stdout w" by simp
    from loop_A_Done_calls[OF l] loop_A_Done_stdout[OF l] c1 s1 w' show ?thesis by simp
  qed
  have b: "\<exists>k \<le> length icons. calls w' =
         calls w @ Makedirs ''assets/product_icons'' # map (\<lambda>n. Save (path_A n)) (take k icons)"
    if run: "create_icons font os w = Raised e w'"
  proof -
    from create_icons_Raised[OF run] show ?thesis
    proof
      assume m: "makedirs os ''assets/product_icons'' w = Raised e w'"
      from makedirs_calls[of os "''assets/product_icons''" w] m
      have "calls w' = calls w @ Makedirs ''assets/product_icons''
              # map (\<lambda>n. Save (path_A n)) (take 0 icons)" by simp
      then show ?thesis by blast
    next
      assume "\<exists>w1. makedirs os ''assets/product_icons'' w = Done w1
           \<and> loop_A font os icons w1 = Raised e w'"
      then obtain w1 where m: "makedirs os ''assets/product_icons'' w = Done w1"
        and l: "loop_A font os icons w1 = Raised e w'" by blast
      from makedirs_calls[of os "''assets/product_icons''" w] m
      have c1: "calls w1 = calls w @ [Makedirs ''assets/product_icons'']" by simp
      from loop_A_Raised_state[OF l distinct_paths_A] obtain k where "k < length icons"
        and "calls w' = calls w1 @ map (\<lambda>n. Save (path_A n)) (take (Suc k) icons)" by blast
      with c1 have "Suc k \<le> length icons \<and> calls w' = calls w @ Makedirs ''assets/product_icons''
              # map (\<lambda>n. Save (path_A n)) (take (Suc k) icons)" by simp
      then show ?thesis by blast
    qed
  qed
  have c: "calls w' = calls w @ Makedirs ''assets/product_icons'' # map (\<lambda>n. Save (path_B n)) icons
      \<and> stdout w' = stdout w
            @ concat (map (\<lambda>n. [''Creating '' @ n, ''Saved '' @ path_B n]) icons)
            @ [''All product icons created successfully!'']"
    if run: "create_product_icons os w = Done w'"
  proof -
    from create_product_icons_Done[OF run] obtain w1 w2
      where m: "makedirs os ''assets/product_icons'' w = Done w1"
        and l: "loop_B os icons w1 = Done w2"
        and w': "w' = print_line ''All product icons created successfully!'' w2" by blast
    from makedirs_calls[of os "''assets/product_icons''" w] m
    have c1: "calls w1 = calls w @ [Makedirs ''assets/product_icons'']" by simp
    from makedirs_stdout[of os "''assets/product_icons''" w] m
    have s1: "stdout w1 = stdout w" by simp
    from loop_B_Done_calls[OF l] loop_B_Done_stdout[OF l] c1 s1 w' show ?thesis by simp
  qed
  have d: "\<exists>k \<le> length icons. calls w' =
         calls w @ Makedirs ''assets/product_icons'' # map (\<lambda>n. Save (path_B n)) (take k icons)"
    if run: "create_product_icons os w = Raised e w'"
  proof -
    from create_product_icons_Raised[OF run] show ?thesis
    proof
      assume m: "makedirs os ''assets/product_icons'' w = Raised e w'"
      from makedirs_calls[of os "''assets/product_icons''" w] m
      have "calls w' = calls w @ Makedirs ''assets/product_icons''
              # map (\<lambda>n. Save (path_B n)) (take 0 icons)" by simp
      then show ?thesis by blast
    next
      assume "\<exists>w1. makedirs os ''assets/product_icons'' w = Done w1
           \<and> loop_B os icons w1 = Raised e w'"
      then obtain w1 where m: "makedirs os ''assets/product_icons'' w = Done w1"
        and l: "loop_B os icons w1 = Raised e w'" by blast
      from makedirs_calls[of os "''assets/product_icons''" w] m
      have c1: "calls w1 = calls w @ [Makedirs ''assets/product_icons'']" by simp
      from loop_B_Raised_state[OF l distinct_paths_B] obtain k where "k < length icons"
        and "calls w' = calls w1 @ map (\<lambda>n. Save (path_B n)) (take (Suc k) icons)" by blast
      with c1 have "Suc k \<le> length icons \<and> calls w' = calls w @ Makedirs ''assets/product_icons''
              # map (\<lambda>n. Save (path_B n)) (take (Suc k) icons)" by simp
      then show ?thesis by blast
    qed
  qed
  from a b c d icons_def show ?thesis by blast
qed

theorem calls_in_list_order_witness:
  "\<exists>w'. create_product_icons no_faults empty_world = Done w'
     \<and> calls w' =
        [Makedirs ''assets/product_icons'',
         Save ''assets/product_icons/hobo_cape_icon.png'',
         Save ''assets/product_icons/cool_shades_icon.png'',
         Save ''assets/product_icons/cardboard_armor_icon.png'',
         Save ''assets/product_icons/extra_life_icon.png'']"
proof -
  from fresh_run_B obtain w' where run: "create_product_icons no_faults empty_world = Done w'"
    by blast
  from calls_in_list_order[of _ no_faults empty_world w'] run
  have "calls w' = calls empty_world @ Makedirs ''assets/product_icons''
          # map (\<lambda>n. Save (path_B n)) icons"
    by blast
  then have "calls w' = Makedirs ''assets/product_icons'' # map Save (map path_B icons)"
    by (simp add: empty_world_def comp_def)
  with run show ?thesis unfolding paths_B by simp
qed

text \<open>The converse: a save that raises after the loop got that far ends the loop.\<close>

lemma loop_A_take_Raised:
  "k < length ns \<Longrightarrow> loop_A font os (take k ns) w = Done wk \<Longrightarrow>
   save os (icon_image_A font (ns ! k)) (path_A (ns ! k)) wk = Raised e w' \<Longrightarrow>
     loop_A font os ns w = Raised e w'"
proof (induction ns arbitrary: k w)
  case Nil
  then show ?case by simp
next
  case (Cons n ns)
  show ?case
  proof (cases k)
    case 0
    with Cons.prems show ?thesis by simp
  next
    case (Suc j)
    with Cons.prems obtain w1 where s: "save os (icon_image_A font n) (path_A n) w = Done w1"
      and l: "loop_A font os (take j ns) (print_line (''Created '' @ path_A n) w1) = Done wk"
      by (auto split: outcome.splits)
    from Cons.prems Suc have "j < length ns"
      and "save os (icon_image_A font (ns ! j)) (path_A (ns ! j)) wk = Raised e w'"
      by simp_all
    from Cons.IH[OF this(1) l this(2)] s show ?thesis by simp
  qed
qed

lemma loop_B_take_Raised:
  "k < length ns \<Longrightarrow> loop_B os (take k ns) w = Done wk \<Longrightarrow>
   save os (icon_image_B (ns ! k)) (path_B (ns ! k))
     (print_line (''Creating '' @ ns ! k) wk) = Raised e w' \<Longrightarrow>
     loop_B os ns w = Raised e w'"
proof (induction ns arbitrary: k w)
  case Nil
  then show ?case by simp
next
  case (Cons n ns)
  show ?case
  proof (cases k)
    case 0
    with Cons.prems show ?thesis by simp
  next
    case (Suc j)
    with Cons.prems obtain w1
      where s: "save os (icon_image_B n) (path_B n) (print_line (''Creating '' @ n) w) = Done w1"
      and l: "loop_B os (take j ns) (print_line (''Saved '' @ path_B n) w1) = Done wk"
      by (auto split: outcome.splits)
    from Cons.prems Suc have "j < length ns"
      and "save os (icon_image_B (ns ! j)) (path_B (ns ! j))
             (print_line (''Creating '' @ ns ! j) wk) = Raised e w'"
      by simp_all
    from Cons.IH[OF this(1) l this(2)] s show ?thesis by simp
  qed
qed

text \<open>What \<^verbatim>\<open>os.makedirs\<close> needs of each directory of the chain to complete.\<close>

lemma makedirs_each_Done_needs:
  "makedirs_each os ps w = Done w' \<Longrightarrow> p \<in> set ps \<Longrightarrow>
     files w p = Some Dir \<or> (files w p = None \<and> mkdir_fault os p = None)"
proof (induction ps arbitrary: w)
  case Nil
  then show ?case by simp
next
  case (Cons a ps)
  show ?case
  proof (cases "files w a")
    case None
    with Cons.prems obtain nf: "mkdir_fault os a = None"
      and run: "makedirs_each os ps (w\<lparr>files := (files w)(a \<mapsto> Dir)\<rparr>) = Done w'"
      by (auto split: option.splits)
    show ?thesis
    proof (cases "p = a")
      case True
      with None nf show ?thesis by simp
    next
      case False
      with Cons.prems have "p \<in> set ps" by simp
      from Cons.IH[OF run this] False show ?thesis by simp
    qed
  next
    case (Some nd)
    with Cons.prems have d: "nd = Dir" and run: "makedirs_each os ps w = Done w'"
      by (auto split: node.splits)
    show ?thesis
    proof (cases "p = a")
      case True
      with Some d show ?thesis by simp
    next
      case False
      with Cons.prems have "p \<in> set ps" by simp
      from Cons.IH[OF run this] show ?thesis .
    qed
  qed
qed

lemma makedirs_Done_needs:
  "makedirs os name w = Done w' \<Longrightarrow> p \<in> set (dirs_of name) \<Longrightarrow>
     files w p = Some Dir \<or> (files w p = None \<and> mkdir_fault os p = None)"
  using makedirs_each_Done_needs[of os "dirs_of name" "w\<lparr>calls := calls w @ [Makedirs name]\<rparr>" w' p]
  by (simp add: makedirs_def)

lemma create_icons_raises_iff:
  "create_icons font os w = Raised e w' \<longleftrightarrow>
     makedirs os ''assets/product_icons'' w = Raised e w'
     \<or> (\<exists>k w1 wk. k < length icons
           \<and> makedirs os ''assets/product_icons'' w = Done w1
           \<and> loop_A font os (take k icons) w1 = Done wk
           \<and> save os (icon_image_A font (icons ! k)) (path_A (icons ! k)) wk = Raised e w')"
proof
  assume run: "create_icons font os w = Raised e w'"
  from create_icons_Raised[OF run] show
    "makedirs os ''assets/product_icons'' w = Raised e w'
     \<or> (\<exists>k w1 wk. k < length icons
           \<and> makedirs os ''assets/product_icons'' w = Done w1
           \<and> loop_A font os (take k icons) w1 = Done wk
           \<and> save os (icon_image_A font (icons ! k)) (path_A (icons ! k)) wk = Raised e w')"
  proof
    assume "makedirs os ''assets/product_icons'' w = Raised e w'"
    then show ?thesis by blast
  next
    assume "\<exists>w1. makedirs os ''assets/product_icons'' w = Done w1
           \<and> loop_A font os icons w1 = Raised e w'"
    then obtain w1 where m: "makedirs os ''assets/product_icons'' w = Done w1"
      and l: "loop_A font os icons w1 = Raised e w'" by blast
    from loop_A_Raised[OF l] m show ?thesis by blast
  qed
next
  assume "makedirs os ''assets/product_icons'' w = Raised e w'
     \<or> (\<exists>k w1 wk. k < length icons
           \<and> makedirs os ''assets/product_icons'' w = Done w1
           \<and> loop_A font os (take k icons) w1 = Done wk
           \<and> save os (icon_image_A font (icons ! k)) (path_A (icons ! k)) wk = Raised e w')"
  then show "create_icons font os w = Raised e w'"
  proof
    assume "makedirs os ''assets/product_icons'' w = Raised e w'"
    then show ?thesis by (simp add: create_icons_def)
  next
    assume "\<exists>k w1 wk. k < length icons
           \<and> makedirs os ''assets/product_icons'' w = Done w1
           \<and> loop_A font os (take k icons) w1 = Done wk
           \<and> save os (icon_image_A font (icons ! k)) (path_A (icons ! k)) wk = Raised e w'"
    then obtain k w1 wk where k: "k < length icons"
      and m: "makedirs os ''assets/product_icons'' w = Done w1"
      and l: "loop_A font os (take k icons) w1 = Done wk"
      and sv: "save os (icon_image_A font (icons ! k)) (path_A (icons ! k)) wk = Raised e w'"
      by blast
    from loop_A_take_Raised[OF k l sv] m show ?thesis by (simp add: create_icons_def)
  qed
qed

lemma create_product_icons_raises_iff:
  "create_product_icons os w = Raised e w' \<longleftrightarrow>
     makedirs os ''assets/product_icons'' w = Raised e w'
     \<or> (\<exists>k w1 wk. k < length icons
           \<and> makedirs os ''assets/product_icons'' w = Done w1
           \<and> loop_B os (take k icons) w1 = Done wk
           \<and> save os (icon_image_B (icons ! k)) (path_B (icons ! k))
                (print_line (''Creating '' @ icons ! k) wk) = Raised e w')"
proof
  assume run: "create_product_icons os w = Raised e w'"
  from create_product_icons_Raised[OF run] show
    "makedirs os ''assets/product_icons'' w = Raised e w'
     \<or> (\<exists>k w1 wk. k < length icons
           \<and> makedirs os ''assets/product_icons'' w = Done w1
           \<and> loop_B os (take k icons) w1 = Done wk
           \<and> save os (icon_image_B (icons ! k)) (path_B (icons ! k))
                (print_line (''Creating '' @ icons ! k) wk) = Raised e w')"
  proof
    assume "makedirs os ''assets/product_icons'' w = Raised e w'"
    then show ?thesis by blast
  next
    assume "\<exists>w1. makedirs os ''assets/product_icons'' w = Done w1
           \<and> loop_B os icons w1 = Raised e w'"
    then obtain w1 where m: "makedirs os ''assets/product_icons'' w = Done w1"
      and l: "loop_B os icons w1 = Raised e w'" by blast
    from loop_B_Raised[OF l] m show ?thesis by blast
  qed
next
  assume "makedirs os ''assets/product_icons'' w = Raised e w'
     \<or> (\<exists>k w1 wk. k < length icons
           \<and> makedirs os ''assets/product_icons'' w = Done w1
           \<and> loop_B os (take k icons) w1 = Done wk
           \<and> save os (icon_image_B (icons ! k)) (path_B (icons ! k))
                (print_line (''Creating '' @ icons ! k) wk) = Raised e w')"
  then show "create_product_icons os w = Raised e w'"
  proof
    assume "makedirs os ''assets/product_icons'' w = Raised e w'"
    then show ?thesis by (simp add: create_product_icons_def)
  next
    assume "\<exists>k w1 wk. k < length icons
           \<and> makedirs os ''assets/product_icons'' w = Done w1
           \<and> loop_B os (take k icons) w1 = Done wk
           \<and> save os (icon_image_B (icons ! k)) (path_B (icons ! k))
                (print_line (''Creating '' @ icons ! k) wk) = Raised e w'"
    then obtain k w1 wk where k: "k < length icons"
      and m: "makedirs os ''assets/product_icons'' w = Done w1"
      and l: "loop_B os (take k icons) w1 = Done wk"
      and sv: "save os (icon_image_B (icons ! k)) (path_B (icons ! k))
                (print_line (''Creating '' @ icons ! k) wk) = Raised e w'"
      by blast
    from loop_B_take_Raised[OF k l sv] m show ?thesis by (simp add: create_product_icons_def)
  qed
qed

text \<open>
  A failure the outside holds ready is met: a script completes only if no
  directory it has to create is refused, no regular file is in a directory's
  place, and no write of an icon is refused.
\<close>

lemma create_icons_Done_needs:
  assumes run: "create_icons font os w = Done w'"
  shows "p \<in> set (dirs_of ''assets/product_icons'') \<Longrightarrow>
           files w p = Some Dir \<or> (files w p = None \<and> mkdir_fault os p = None)"
    and "n \<in> set icons \<Longrightarrow> write_fault os (path_A n) = None"
proof -
  from create_icons_Done[OF run] obtain w1 w2
    where m: "makedirs os ''assets/product_icons'' w = Done w1"
      and l: "loop_A font os icons w1 = Done w2" by blast
  show "files w p = Some Dir \<or> (files w p = None \<and> mkdir_fault os p = None)"
    if "p \<in> set (dirs_of ''assets/product_icons'')"
    using makedirs_Done_needs[OF m that] .
  show "write_fault os (path_A n) = None" if "n \<in> set icons"
    using loop_A_Done_faults[OF l that] .
qed

lemma create_product_icons_Done_needs:
  assumes run: "create_product_icons os w = Done w'"
  shows "p \<in> set (dirs_of ''assets/product_icons'') \<Longrightarrow>
           files w p = Some Dir \<or> (files w p = None \<and> mkdir_fault os p = None)"
    and "n \<in> set icons \<Longrightarrow> write_fault os (path_B n) = None"
proof -
  from create_product_icons_Done[OF run] obtain w1 w2
    where m: "makedirs os ''assets/product_icons'' w = Done w1"
      and l: "loop_B os icons w1 = Done w2" by blast
  show "files w p = Some Dir \<or> (files w p = None \<and> mkdir_fault os p = None)"
    if "p \<in> set (dirs_of ''assets/product_icons'')"
    using makedirs_Done_needs[OF m that] .
  show "write_fault os (path_B n) = None" if "n \<in> set icons"
    using loop_B_Done_faults[OF l that] .
qed

lemma not_Done_Raised: "(\<forall>w'. r \<noteq> Done w') \<Longrightarrow> \<exists>e w'. r = Raised e w'"
  by (cases r) auto

lemma create_icons_fault_raises:
  assumes "list_ex (\<lambda>p. (files w p = None \<and> mkdir_fault os p \<noteq> None)
                        \<or> (\<exists>c. files w p = Some (File c)))
             [''assets'', ''assets/product_icons'']
           \<or> list_ex (\<lambda>n. write_fault os (path_A n) \<noteq> None) icons"
  shows "\<exists>e w'. create_icons font os w = Raised e w'"
proof (rule not_Done_Raised, intro allI notI)
  fix w' assume run: "create_icons font os w = Done w'"
  from assms show False
  proof
    assume "list_ex (\<lambda>p. (files w p = None \<and> mkdir_fault os p \<noteq> None)
                        \<or> (\<exists>c. files w p = Some (File c)))
             [''assets'', ''assets/product_icons'']"
    then obtain p where "p \<in> set (dirs_of ''assets/product_icons'')"
      and "(files w p = None \<and> mkdir_fault os p \<noteq> None) \<or> (\<exists>c. files w p = Some (File c))"
      unfolding dirs_of_target list_ex_iff by blast
    with create_icons_Done_needs(1)[OF run this(1)] show False by auto
  next
    assume "list_ex (\<lambda>n. write_fault os (path_A n) \<noteq> None) icons"
    then obtain n where "n \<in> set icons" "write_fault os (path_A n) \<noteq> None"
      unfolding list_ex_iff by blast
    with create_icons_Done_needs(2)[OF run this(1)] show False by simp
  qed
qed

lemma create_product_icons_fault_raises:
  assumes "list_ex (\<lambda>p. (files w p = None \<and> mkdir_fault os p \<noteq> None)
                        \<or> (\<exists>c. files w p = Some (File c)))
             [''assets'', ''assets/product_icons'']
           \<or> list_ex (\<lambda>n. write_fault os (path_B n) \<noteq> None) icons"
  shows "\<exists>e w'. create_product_icons os w = Raised e w'"
proof (rule not_Done_Raised, intro allI notI)
  fix w' assume run: "create_product_icons os w = Done w'"
  from assms show False
  proof
    assume "list_ex (\<lambda>p. (files w p = None \<and> mkdir_fault os p \<noteq> None)
                        \<or> (\<exists>c. files w p = Some (File c)))
             [''assets'', ''assets/product_icons'']"
    then obtain p where "p \<in> set (dirs_of ''assets/product_icons'')"
      and "(files w p = None \<and> mkdir_fault os p \<noteq> None) \<or> (\<exists>c. files w p = Some (File c))"
      unfolding dirs_of_target list_ex_iff by blast
    with create_product_icons_Done_needs(1)[OF run this(1)] show False by auto
  next
    assume "list_ex (\<lambda>n. write_fault os (path_B n) \<noteq> None) icons"
    then obtain n where "n \<in> set icons" "write_fault os (path_B n) \<noteq> None"
      unfolding list_ex_iff by blast
    with create_product_icons_Done_needs(2)[OF run this(1)] show False by simp
  qed
qed

text \<open>The state a script raises in.\<close>

lemma raised_run_state:
  "(create_icons font os w = Raised e w' \<longrightarrow>
      (makedirs os ''assets/product_icons'' w = Raised e w'
         \<and> calls w' = calls w @ [Makedirs ''assets/product_icons''])
      \<or> (\<exists>k w1 wk. k < length icons
           \<and> makedirs os ''assets/product_icons'' w = Done w1
           \<and> loop_A font os (take k icons) w1 = Done wk
           \<and> save os (icon_image_A font (icons ! k)) (path_A (icons ! k)) wk = Raised e w'
           \<and> calls w' = calls w @ Makedirs ''assets/product_icons''
                # map (\<lambda>n. Save (path_A n)) (take (Suc k) icons)
           \<and> (\<forall>j<k. files w' (path_A (icons ! j))
                  = Some (File (PNG (icon_image_A font (icons ! j)))))))
   \<and> (create_product_icons os w = Raised e w' \<longrightarrow>
      (makedirs os ''assets/product_icons'' w = Raised e w'
         \<and> calls w' = calls w @ [Makedirs ''assets/product_icons''])
      \<or> (\<exists>k w1 wk. k < length icons
           \<and> makedirs os ''assets/product_icons'' w = Done w1
           \<and> loop_B os (take k icons) w1 = Done wk
           \<and> save os (icon_image_B (icons ! k)) (path_B (icons ! k))
                (print_line (''Creating '' @ icons ! k) wk) = Raised e w'
           \<and> calls w' = calls w @ Makedirs ''assets/product_icons''
                # map (\<lambda>n. Save (path_B n)) (take (Suc k) icons)
           \<and> (\<forall>j<k. files w' (path_B (icons ! j))
                  = Some (File (PNG (icon_image_B (icons ! j)))))))"
proof -
  have a: "(makedirs os ''assets/product_icons'' w = Raised e w'
         \<and> calls w' = calls w @ [Makedirs ''assets/product_icons''])
      \<or> (\<exists>k w1 wk. k < length icons
           \<and> makedirs os ''assets/product_icons'' w = Done w1
           \<and> loop_A font os (take k icons) w1 = Done wk
           \<and> save os (icon_image_A font (icons ! k)) (path_A (icons ! k)) wk = Raised e w'
           \<and> calls w' = calls w @ Makedirs ''assets/product_icons''
                # map (\<lambda>n. Save (path_A n)) (take (Suc k) icons)
           \<and> (\<forall>j<k. files w' (path_A (icons ! j))
                  = Some (File (PNG (icon_image_A font (icons ! j))))))"
    if run: "create_icons font os w = Raised e w'"
  proof -
    from create_icons_Raised[OF run] show ?thesis
    proof
      assume m: "makedirs os ''assets/product_icons'' w = Raised e w'"
      from makedirs_calls[of os "''assets/product_icons''" w] m
      have "calls w' = calls w @ [Makedirs ''assets/product_icons'']" by simp
      with m show ?thesis by blast
    next
      assume "\<exists>w1. makedirs os ''assets/product_icons'' w = Done w1
           \<and> loop_A font os icons w1 = Raised e w'"
      then obtain w1 where m: "makedirs os ''assets/product_icons'' w = Done w1"
        and l: "loop_A font os icons w1 = Raised e w'" by blast
      from makedirs_calls[of os "''assets/product_icons''" w] m
      have c1: "calls w1 = calls w @ [Makedirs ''assets/product_icons'']" by simp
      from loop_A_Raised_state[OF l distinct_paths_A] obtain k wk where k: "k < length icons"
        and lk: "loop_A font os (take k icons) w1 = Done wk"
        and sk: "save os (icon_image_A font (icons ! k)) (path_A (icons ! k)) wk = Raised e w'"
        and c: "calls w' = calls w1 @ map (\<lambda>n. Save (path_A n)) (take (Suc k) icons)"
        and f: "\<forall>j<k. files w' (path_A (icons ! j))
                  = Some (File (PNG (icon_image_A font (icons ! j))))" by blast
      from c c1 have "calls w' = calls w @ Makedirs ''assets/product_icons''
                # map (\<lambda>n. Save (path_A n)) (take (Suc k) icons)" by simp
      with k m lk sk f show ?thesis by blast
    qed
  qed
  have b: "(makedirs os ''assets/product_icons'' w = Raised e w'
         \<and> calls w' = calls w @ [Makedirs ''assets/product_icons''])
      \<or> (\<exists>k w1 wk. k < length icons
           \<and> makedirs os ''assets/product_icons'' w = Done w1
           \<and> loop_B os (take k icons) w1 = Done wk
           \<and> save os (icon_image_B (icons ! k)) (path_B (icons ! k))
                (print_line (''Creating '' @ icons ! k) wk) = Raised e w'
           \<and> calls w' = calls w @ Makedirs ''assets/product_icons''
                # map (\<lambda>n. Save (path_B n)) (take (Suc k) icons)
           \<and> (\<forall>j<k. files w' (path_B (icons ! j))
                  = Some (File (PNG (icon_image_B (icons ! j))))))"
    if run: "create_product_icons os w = Raised e w'"
  proof -
    from create_product_icons_Raised[OF run] show ?thesis
    proof
      assume m: "makedirs os ''assets/product_icons'' w = Raised e w'"
      from makedirs_calls[of os "''assets/product_icons''" w] m
      have "calls w' = calls w @ [Makedirs ''assets/product_icons'']" by simp
      with m show ?thesis by blast
    next
      assume "\<exists>w1. makedirs os ''assets/product_icons'' w = Done w1
           \<and> loop_B os icons w1 = Raised e w'"
      then obtain w1 where m: "makedirs os ''assets/product_icons'' w = Done w1"
        and l: "loop_B os icons w1 = Raised e w'" by blast
      from makedirs_calls[of os "''assets/product_icons''" w] m
      have c1: "calls w1 = calls w @ [Makedirs ''assets/product_icons'']" by simp
      from loop_B_Raised_state[OF l distinct_paths_B] obtain k wk where k: "k < length icons"
        and lk: "loop_B os (take k icons) w1 = Done wk"
        and sk: "save os (icon_image_B (icons ! k)) (path_B (icons ! k))
                (print_line (''Creating '' @ icons ! k) wk) = Raised e w'"
        and c: "calls w' = calls w1 @ map (\<lambda>n. Save (path_B n)) (take (Suc k) icons)"
        and f: "\<forall>j<k. files w' (path_B (icons ! j))
                  = Some (File (PNG (icon_image_B (icons ! j))))" by blast
      from c c1 have "calls w' = calls w @ Makedirs ''assets/product_icons''
                # map (\<lambda>n. Save (path_B n)) (take (Suc k) icons)" by simp
      with k m lk sk f show ?thesis by blast
    qed
  qed
  from a b show ?thesis by blast
qed


text \<open>
  C8. A script raises exactly when one of its calls on the file system
  raises, and then with that call's error and in the world that call left:
  either \<^verbatim>\<open>os.makedirs\<close> raised, or the save of some icon \<open>k\<close> raised after the
  loop had completed for the icons before it. A failure the outside holds
  ready is always met: if a directory that has to be created is refused, a
  regular file is in a directory's place, or the write of one of the four
  icons is refused, the script raises. And a script that raised stopped at
  the failing call: if \<^verbatim>\<open>os.makedirs\<close> raised no save was issued; if the save
  of icon \<open>k\<close> raised, it is the last call issued (each path before it was
  saved once, none after it), and every icon before \<open>k\<close> still has its file
  with its image.
\<close>

theorem fail_fast_keeps_files:
  "(create_icons font os w = Raised e w' \<longleftrightarrow>
      makedirs os ''assets/product_icons'' w = Raised e w'
      \<or> (\<exists>k w1 wk. k < length icons
            \<and> makedirs os ''assets/product_icons'' w = Done w1
            \<and> loop_A font os (take k icons) w1 = Done wk
            \<and> save os (icon_image_A font (icons ! k)) (path_A (icons ! k)) wk = Raised e w'))
   \<and> (list_ex (\<lambda>p. (files w p = None \<and> mkdir_fault os p \<noteq> None)
                        \<or> (\<exists>c. files w p = Some (File c)))
         [''assets'', ''assets/product_icons'']
       \<or> list_ex (\<lambda>n. write_fault os (path_A n) \<noteq> None) icons
      \<longrightarrow> (\<exists>e w'. create_icons font os w = Raised e w'))
   \<and> (create_icons font os w = Raised e w' \<longrightarrow>
      (makedirs os ''assets/product_icons'' w = Raised e w'
         \<and> calls w' = calls w @ [Makedirs ''assets/product_icons''])
      \<or> (\<exists>k w1 wk. k < length icons
           \<and> makedirs os ''assets/product_icons'' w = Done w1
           \<and> loop_A font os (take k icons) w1 = Done wk
           \<and> save os (icon_image_A font (icons ! k)) (path_A (icons ! k)) wk = Raised e w'
           \<and> calls w' = calls w @ Makedirs ''assets/product_icons''
                # map (\<lambda>n. Save (path_A n)) (take (Suc k) icons)
           \<and> (\<forall>j<k. files w' (path_A (icons ! j))
                  = Some (File (PNG (icon_image_A font (icons ! j)))))))
   \<and> (create_product_icons os w = Raised e w' \<longleftrightarrow>
      makedirs os ''assets/product_icons'' w = Raised e w'
      \<or> (\<exists>k w1 wk. k < length icons
            \<and> makedirs os ''assets/product_icons'' w = Done w1
            \<and> loop_B os (take k icons) w1 = Done wk
            \<and> save os (icon_image_B (icons ! k)) (path_B (icons ! k))
                 (print_line (''Creating '' @ icons ! k) wk) = Raised e w'))
   \<and> (list_ex (\<lambda>p. (files w p = None \<and> mkdir_fault os p \<noteq> None)
                        \<or> (\<exists>c. files w p = Some (File c)))
         [''assets'', ''assets/product_icons'']
       \<or> list_ex (\<lambda>n. write_fault os (path_B n) \<noteq> None) icons
      \<longrightarrow> (\<exists>e w'. create_product_icons os w = Raised e w'))
   \<and> (create_product_icons os w = Raised e w' \<longrightarrow>
      (makedirs os ''assets/product_icons'' w = Raised e w'
         \<and> calls w' = calls w @ [Makedirs ''assets/product_icons''])
      \<or> (\<exists>k w1 wk. k < length icons
           \<and> makedirs os ''assets/product_icons'' w = Done w1
           \<and> loop_B os (take k icons) w1 = Done wk
           \<and> save os (icon_image_B (icons ! k)) (path_B (icons ! k))
                (print_line (''Creating '' @ icons ! k) wk) = Raised e w'
           \<and> calls w' = calls w @ Makedirs ''assets/product_icons''
                # map (\<lambda>n. Save (path_B n)) (take (Suc k) icons)
           \<and> (\<forall>j<k. files w' (path_B (icons ! j))
                  = Some (File (PNG (icon_image_B (icons ! j)))))))"
proof -
  have a1: "create_icons font os w = Raised e w' \<longleftrightarrow>
      makedirs os ''assets/product_icons'' w = Raised e w'
      \<or> (\<exists>k w1 wk. k < length icons
            \<and> makedirs os ''assets/product_icons'' w = Done w1
            \<and> loop_A font os (take k icons) w1 = Done wk
            \<and> save os (icon_image_A font (icons ! k)) (path_A (icons ! k)) wk = Raised e w')"
    by (rule create_icons_raises_iff)
  have a2: "list_ex (\<lambda>p. (files w p = None \<and> mkdir_fault os p \<noteq> None)
                        \<or> (\<exists>c. files w p = Some (File c)))
         [''assets'', ''assets/product_icons'']
       \<or> list_ex (\<lambda>n. write_fault os (path_A n) \<noteq> None) icons
      \<longrightarrow> (\<exists>e w'. create_icons font os w = Raised e w')"
    using create_icons_fault_raises[of w os font] by blast
  have b1: "create_product_icons os w = Raised e w' \<longleftrightarrow>
      makedirs os ''assets/product_icons'' w = Raised e w'
      \<or> (\<exists>k w1 wk. k < length icons
            \<and> makedirs os ''assets/product_icons'' w = Done w1
            \<and> loop_B os (take k icons) w1 = Done wk
            \<and> save os (icon_image_B (icons ! k)) (path_B (icons ! k))
                 (print_line (''Creating '' @ icons ! k) wk) = Raised e w')"
    by (rule create_product_icons_raises_iff)
  have b2: "list_ex (\<lambda>p. (files w p = None \<and> mkdir_fault os p \<noteq> None)
                        \<or> (\<exists>c. files w p = Some (File c)))
         [''assets'', ''assets/product_icons'']
       \<or> list_ex (\<lambda>n. write_fault os (path_B n) \<noteq> None) icons
      \<longrightarrow> (\<exists>e w'. create_product_icons os w = Raised e w')"
    using create_product_icons_fault_raises[of w os] by blast
  note a3 = raised_run_state[of font os w e w', THEN conjunct1]
  note b3 = raised_run_state[of font os w e w', THEN conjunct2]
  show ?thesis
    by (intro conjI; (fact a1 | fact a2 | fact a3 | fact b1 | fact b2 | fact b3))
qed

text \<open>
  A run on an empty disk where the third write meets a full disk (error 28)
  and leaves a cut file: the script raises that error, the first two icons
  are on disk, the third is the cut file, the fourth was never tried.
\<close>

lemma full_disk_run:
  "case create_icons blank_font
          (no_faults\<lparr>write_fault := (\<lambda>p. if p = ''assets/product_icons/cardboard_armor_icon.png''
                                          then Some (28, Cut) else None)\<rparr>) empty_world of
     Done w' \<Rightarrow> False
   | Raised e w' \<Rightarrow>
       e = OSError 28 ''assets/product_icons/cardboard_armor_icon.png''
       \<and> files w' ''assets/product_icons/hobo_cape_icon.png''
            = Some (File (PNG (icon_image_A blank_font ''hobo_cape_icon'')))
       \<and> files w' ''assets/product_icons/cool_shades_icon.png''
            = Some (File (PNG (icon_image_A blank_font ''cool_shades_icon'')))
       \<and> files w' ''assets/product_icons/cardboard_armor_icon.png'' = Some (File Partial)
       \<and> files w' ''assets/product_icons/extra_life_icon.png'' = None
       \<and> calls w' = [Makedirs ''assets/product_icons'',
                     Save ''assets/product_icons/hobo_cape_icon.png'',
                     Save ''assets/product_icons/cool_shades_icon.png'',
                     Save ''assets/product_icons/cardboard_armor_icon.png'']"
proof -
  have p: "path_A ''hobo_cape_icon'' = ''assets/product_icons/hobo_cape_icon.png''"
    "path_A ''cool_shades_icon'' = ''assets/product_icons/cool_shades_icon.png''"
    "path_A ''cardboard_armor_icon'' = ''assets/product_icons/cardboard_armor_icon.png''"
    "path_A ''extra_life_icon'' = ''assets/product_icons/extra_life_icon.png''"
    by code_simp+
  have d: "dirname ''assets/product_icons/hobo_cape_icon.png'' = ''assets/product_icons''"
    "dirname ''assets/product_icons/cool_shades_icon.png'' = ''assets/product_icons''"
    "dirname ''assets/product_icons/cardboard_armor_icon.png'' = ''assets/product_icons''"
    "dirname ''assets/product_icons/extra_life_icon.png'' = ''assets/product_icons''"
    by code_simp+
  show ?thesis
    by (simp add: create_icons_def makedirs_def dirs_of_target icons_def save_def Let_def
        empty_world_def no_faults_def p d)
qed

text \<open>
  On a disk where the regular file \<^verbatim>\<open>assets\<close> is in the way,
  \<^verbatim>\<open>os.makedirs\<close> raises and so does the script, with nothing saved.
\<close>

lemma blocked_makedirs:
  "makedirs no_faults ''assets/product_icons'' blocked_world
     = Raised (NotADirectoryError ''assets/product_icons'')
         (blocked_world\<lparr>calls := [Makedirs ''assets/product_icons'']\<rparr>)"
  by (simp add: makedirs_def dirs_of_target blocked_world_def)

theorem fail_fast_keeps_files_witness:
  "(\<exists>w'. create_icons blank_font
          (no_faults\<lparr>write_fault := (\<lambda>p. if p = ''assets/product_icons/cardboard_armor_icon.png''
                                          then Some (28, Cut) else None)\<rparr>) empty_world
       = Raised (OSError 28 ''assets/product_icons/cardboard_armor_icon.png'') w'
     \<and> calls w' = [Makedirs ''assets/product_icons'',
                   Save ''assets/product_icons/hobo_cape_icon.png'',
                   Save ''assets/product_icons/cool_shades_icon.png'',
                   Save ''assets/product_icons/cardboard_armor_icon.png'']
     \<and> files w' ''assets/product_icons/hobo_cape_icon.png''
          = Some (File (PNG (icon_image_A blank_font ''hobo_cape_icon'')))
     \<and> files w' ''assets/product_icons/cool_shades_icon.png''
          = Some (File (PNG (icon_image_A blank_font ''cool_shades_icon''))))
   \<and> create_product_icons no_faults blocked_world
       = Raised (NotADirectoryError ''assets/product_icons'')
           (blocked_world\<lparr>calls := [Makedirs ''assets/product_icons'']\<rparr>)
   \<and> (\<exists>e w'. create_product_icons
          (no_faults\<lparr>write_fault := (\<lambda>p. if p = ''assets/product_icons/hobo_cape_icon.png''
                                          then Some (13, Untouched) else None)\<rparr>) empty_world
        = Raised e w')"
proof -
  let ?os = "no_faults\<lparr>write_fault := (\<lambda>p. if p = ''assets/product_icons/cardboard_armor_icon.png''
                                          then Some (28, Cut) else None)\<rparr>"
  let ?e = "OSError 28 ''assets/product_icons/cardboard_armor_icon.png''"
  let ?os13 = "no_faults\<lparr>write_fault := (\<lambda>p. if p = ''assets/product_icons/hobo_cape_icon.png''
                                          then Some (13, Untouched) else None)\<rparr>"
  from full_disk_run obtain w' where run: "create_icons blank_font ?os empty_world = Raised ?e w'"
    and cs: "calls w' = [Makedirs ''assets/product_icons'',
                     Save ''assets/product_icons/hobo_cape_icon.png'',
                     Save ''assets/product_icons/cool_shades_icon.png'',
                     Save ''assets/product_icons/cardboard_armor_icon.png'']"
    by (cases "create_icons blank_font ?os empty_world") auto
  have nm: "\<not> (makedirs ?os ''assets/product_icons'' empty_world = Raised ?e w')"
  proof
    assume m: "makedirs ?os ''assets/product_icons'' empty_world = Raised ?e w'"
    then show False
      by (simp add: makedirs_def dirs_of_target empty_world_def no_faults_def)
  qed
  note A = fail_fast_keeps_files[of blank_font ?os empty_world ?e w']
  from A[THEN conjunct2, THEN conjunct2, THEN conjunct1] run nm
  obtain k where k: "k < length icons"
    and c: "calls w' = calls empty_world @ Makedirs ''assets/product_icons''
                # map (\<lambda>n. Save (path_A n)) (take (Suc k) icons)"
    and f: "\<forall>j<k. files w' (path_A (icons ! j))
                  = Some (File (PNG (icon_image_A blank_font (icons ! j))))"
    by blast
  from cs have "length (calls w') = 4"
    by simp
  moreover from c have "length (calls w') = Suc (min (length icons) (Suc k))"
    by (simp add: empty_world_def)
  ultimately have k2: "k = 2"
    using k by simp
  have "(0::nat) < 2" "(1::nat) < 2" by simp_all
  with f k2 have "files w' (path_A (icons ! 0))
        = Some (File (PNG (icon_image_A blank_font (icons ! 0))))"
    and "files w' (path_A (icons ! 1))
        = Some (File (PNG (icon_image_A blank_font (icons ! 1))))"
    by blast+
  moreover have "icons ! 0 = ''hobo_cape_icon''" "icons ! 1 = ''cool_shades_icon''"
    by (simp_all add: icons_def)
  moreover have "path_A ''hobo_cape_icon'' = ''assets/product_icons/hobo_cape_icon.png''"
    "path_A ''cool_shades_icon'' = ''assets/product_icons/cool_shades_icon.png''"
    by code_simp+
  ultimately have first: "\<exists>w'. create_icons blank_font ?os empty_world = Raised ?e w'
     \<and> calls w' = [Makedirs ''assets/product_icons'',
                   Save ''assets/product_icons/hobo_cape_icon.png'',
                   Save ''assets/product_icons/cool_shades_icon.png'',
                   Save ''assets/product_icons/cardboard_armor_icon.png'']
     \<and> files w' ''assets/product_icons/hobo_cape_icon.png''
          = Some (File (PNG (icon_image_A blank_font ''hobo_cape_icon'')))
     \<and> files w' ''assets/product_icons/cool_shades_icon.png''
          = Some (File (PNG (icon_image_A blank_font ''cool_shades_icon'')))"
    using run cs by (intro exI[of _ w']) simp
  note B = fail_fast_keeps_files[of _ no_faults blocked_world
      "NotADirectoryError ''assets/product_icons''"
      "blocked_world\<lparr>calls := [Makedirs ''assets/product_icons'']\<rparr>"]
  from B[THEN conjunct2, THEN conjunct2, THEN conjunct2, THEN conjunct1] blocked_makedirs
  have second: "create_product_icons no_faults blocked_world
       = Raised (NotADirectoryError ''assets/product_icons'')
           (blocked_world\<lparr>calls := [Makedirs ''assets/product_icons'']\<rparr>)"
    by blast
  have "list_ex (\<lambda>p. write_fault ?os13 p \<noteq> None) (map path_B icons)"
    unfolding paths_B by simp
  then have "list_ex (\<lambda>n. write_fault ?os13 (path_B n) \<noteq> None) icons"
    by (simp add: list_ex_iff)
  with fail_fast_keeps_files[of _ ?os13 empty_world]
  have third: "\<exists>e w'. create_product_icons ?os13 empty_world = Raised e w'"
    by blast
  from first second third show ?thesis by blast
qed

text \<open>
  C10. In \<^verbatim>\<open>create_product_icons.py\<close> the image does not depend on the name:
  any two names give the same image, with the blue (100, 150, 200) outside
  the rectangle and the fill (70, 90, 150) inside it. The name decides the
  path only, and distinct names have distinct paths. So after a complete run
  the four files all hold one and the same image.
\<close>

theorem image_B_independent_of_name:
  "icon_image_B n1 = icon_image_B n2
   \<and> pixel_at (icon_image_B n1) (0, 0) = Some [100, 150, 200]
   \<and> pixel_at (icon_image_B n1) (128, 128) = Some [70, 90, 150]
   \<and> (path_B n1 = path_B n2 \<longleftrightarrow> n1 = n2)
   \<and> (create_product_icons os w = Done w' \<longrightarrow>
        list_all (\<lambda>n. files w' (path_B n) = Some (File (PNG (icon_image_B n1)))) icons)"
proof -
  have same: "icon_image_B a = icon_image_B b" for a b
    by (simp add: icon_image_B_def)
  have bg: "pixel_at (icon_image_B n1) (0, 0) = Some [100, 150, 200]"
    by (simp add: pixel_at_def inside_icon_image_B px_icon_image_B)
  have fill: "pixel_at (icon_image_B n1) (128, 128) = Some [70, 90, 150]"
    by (simp add: pixel_at_def inside_icon_image_B px_icon_image_B)
  have inj: "path_B n1 = path_B n2 \<longleftrightarrow> n1 = n2"
    by (simp add: path_B_def)
  have run: "list_all (\<lambda>n. files w' (path_B n) = Some (File (PNG (icon_image_B n1)))) icons"
    if "create_product_icons os w = Done w'"
    using create_product_icons_files(1)[OF that] same[of _ n1] by (simp add: list_all_iff)
  from same[of n1 n2] bg fill inj run show ?thesis by blast
qed

theorem image_B_independent_of_name_witness:
  "\<exists>w'. create_product_icons no_faults empty_world = Done w'
     \<and> files w' ''assets/product_icons/hobo_cape_icon.png''
         = Some (File (PNG (icon_image_B ''extra_life_icon'')))
     \<and> files w' ''assets/product_icons/extra_life_icon.png''
         = Some (File (PNG (icon_image_B ''extra_life_icon'')))"
proof -
  from fresh_run_B obtain w' where run: "create_product_icons no_faults empty_world = Done w'"
    by blast
  from image_B_independent_of_name[of "''extra_life_icon''" _ no_faults empty_world w'] run
  have "list_all (\<lambda>n. files w' (path_B n) = Some (File (PNG (icon_image_B ''extra_life_icon''))))
          icons"
    by blast
  then have "files w' (path_B ''hobo_cape_icon'')
         = Some (File (PNG (icon_image_B ''extra_life_icon'')))"
    and "files w' (path_B ''extra_life_icon'')
         = Some (File (PNG (icon_image_B ''extra_life_icon'')))"
    by (simp_all add: icons_def)
  with run show ?thesis by (auto simp add: path_B_def)
qed

end
